theory Spec2Isabelle
  imports Main "HOL-Library.Extended_Nat"
begin

section \<open>Filename sanitisation (backend/src/utils/safeFilename)\<close>

text \<open>
  A JavaScript string is a sequence of UTF-16 code units; a code unit is modelled by its
  number. \<open>js\<close> embeds an ASCII literal.
\<close>

type_synonym jsstring = "nat list"

definition js :: "string \<Rightarrow> jsstring" where
  "js s = map of_char s"

definition is_word :: "nat \<Rightarrow> bool" where
  \<comment> \<open>the regular expression class \<open>\w\<close>: \<open>[A-Za-z0-9_]\<close>\<close>
  "is_word c \<longleftrightarrow> (48 \<le> c \<and> c \<le> 57) \<or> (65 \<le> c \<and> c \<le> 90) \<or> c = 95 \<or> (97 \<le> c \<and> c \<le> 122)"

definition is_space :: "nat \<Rightarrow> bool" where
  \<comment> \<open>the class \<open>\s\<close>, which is also what \<open>trim\<close> strips: tab, LF, VT, FF, CR, space,
      U+00A0, U+1680, U+2000..U+200A, U+2028, U+2029, U+202F, U+205F, U+3000, U+FEFF\<close>
  "is_space c \<longleftrightarrow> (9 \<le> c \<and> c \<le> 13) \<or> c = 32 \<or> c = 160 \<or> c = 5760 \<or> (8192 \<le> c \<and> c \<le> 8202)
     \<or> c = 8232 \<or> c = 8233 \<or> c = 8239 \<or> c = 8287 \<or> c = 12288 \<or> c = 65279"

definition is_underscore :: "nat \<Rightarrow> bool" where
  "is_underscore c \<longleftrightarrow> c = 95"

definition keep_char :: "nat \<Rightarrow> bool" where
  \<comment> \<open>the complement of \<open>[^\w\s.-]\<close>\<close>
  "keep_char c \<longleftrightarrow> is_word c \<or> is_space c \<or> c = 46 \<or> c = 45"

text \<open>\<open>replace(/P+/g, '_')\<close>: every maximal run of characters in \<open>P\<close> becomes one underscore.\<close>

function replace_runs :: "(nat \<Rightarrow> bool) \<Rightarrow> jsstring \<Rightarrow> jsstring" where
  "replace_runs P [] = []"
| "replace_runs P (c # cs) =
     (if P c then 95 # replace_runs P (dropWhile P cs) else c # replace_runs P cs)"
  by pat_completeness auto
termination
  by (relation "measure (\<lambda>(P, cs). length cs)")
     (auto simp: less_Suc_eq_le length_dropWhile_le)

definition strip_ends :: "('a \<Rightarrow> bool) \<Rightarrow> 'a list \<Rightarrow> 'a list" where
  \<comment> \<open>\<open>replace(/^P+|P+$/g, '')\<close> and, for white space, \<open>trim()\<close>\<close>
  "strip_ends P s = rev (dropWhile P (rev (dropWhile P s)))"

definition clean_name :: "jsstring \<Rightarrow> jsstring" where
  \<comment> \<open>the four \<open>replace\<close> calls of \<open>safeFilename\<close>, in the source's order; a run of two or
      more underscores becomes one, and a single underscore stays one\<close>
  "clean_name name =
     strip_ends is_underscore
       (replace_runs is_underscore
         (replace_runs is_space
           (filter keep_char name)))"

definition safeFilename :: "jsstring \<Rightarrow> jsstring" where
  "safeFilename name =
     (if name = [] then js ''download''
      else let r = strip_ends is_space (take 100 (clean_name name))
           in if r = [] then js ''download'' else r)"


section \<open>Numbers\<close>

text \<open>
  A JavaScript number is an IEEE 754 double. A finite double that is not negative is
  written here as a fraction \<open>(p, q)\<close> of natural numbers whose denominator is a power of
  two. \<open>toDouble n d\<close> is the double nearest to the quotient \<open>n / d\<close>, a tie going to the
  even significand of 53 bits: it is the result of the division of two integers that are
  doubles, of the product of a double and an integer, and of the conversion of a decimal
  integer. The exponent is not bounded in \<open>toDouble\<close>: the overflow to \<open>Infinity\<close> is in
  \<open>numberValue\<close>, and quotients of byte counts are far inside the range of normal doubles.
  \<open>bits n\<close> is the length of \<open>n\<close> in binary.
\<close>

function bits :: "nat \<Rightarrow> nat" where
  "bits n = (if n = 0 then 0 else Suc (bits (n div 2)))"
  by pat_completeness auto
termination
  by (relation "measure id") auto

declare bits.simps [simp del]

definition roundHalfEven :: "nat \<Rightarrow> nat \<Rightarrow> nat" where
  \<comment> \<open>the integer nearest to \<open>n / d\<close>, a tie going to the even one\<close>
  "roundHalfEven n d =
     (let q = n div d; r = n mod d
      in if 2 * r < d then q else if d < 2 * r then q + 1 else if even q then q else q + 1)"

definition toDouble :: "nat \<Rightarrow> nat \<Rightarrow> nat \<times> nat" where
  \<comment> \<open>the quotient is scaled by a power of two into the interval from \<open>2\<^sup>5\<^sup>2\<close> to \<open>2\<^sup>5\<^sup>3\<close>,
      rounded to an integer there, and scaled back\<close>
  "toDouble n d =
     (if n = 0 then (0, 1)
      else let up = 53 + bits d - bits n; down = bits n - (53 + bits d);
               big = (2 ^ 53 * (d * 2 ^ down) \<le> n * 2 ^ up);
               up' = (if big then up - 1 else up);
               down' = (if big \<and> up = 0 then down + 1 else down)
           in (roundHalfEven (n * 2 ^ up') (d * 2 ^ down') * 2 ^ down', 2 ^ up'))"

definition mathRound :: "nat \<times> nat \<Rightarrow> nat" where
  \<comment> \<open>\<open>Math.round\<close>: the nearest integer, a half going upwards\<close>
  "mathRound x = (2 * fst x + snd x) div (2 * snd x)"

definition numberValue :: "nat \<Rightarrow> enat" where
  \<comment> \<open>the number that stands for a mathematical integer: the nearest double, and
      \<open>Infinity\<close> from \<open>2\<^sup>1\<^sup>0\<^sup>2\<^sup>4\<close> on\<close>
  "numberValue n =
     (let x = toDouble n 1; v = fst x div snd x
      in if 2 ^ 1024 \<le> v then \<infinity> else enat v)"


section \<open>Progress bus (services/progressService) and job queue (services/queueService)\<close>

text \<open>
  Both services are process-wide singletons, and the queue registers a listener on the
  progress bus in its constructor, so an event published by the bus runs queue code
  before the publishing call returns. They are therefore modelled over one state.
  Dates are milliseconds (\<open>int\<close>) supplied by the caller as \<open>now\<close>; generated ids are
  supplied by the caller as \<open>gen\<close>. Child-process and stream handles are not part of the
  state: what the processes do arrives as separate calls.
\<close>

datatype JobType = Download | Convert

datatype JobStatus = Queued | Downloading | Converting | Completed | Failed

datatype ProgressStatus = PDownloading | PCompleted | PError | PCancelled

record DownloadProgress =
  downloadId :: string
  bytesDownloaded :: nat
  totalBytes :: "nat option"
  percentage :: "nat option"
  status :: ProgressStatus
  error :: "string option"

record DownloadSession =
  session_downloadId :: string
  session_url :: string
  session_formatId :: string
  progress :: DownloadProgress
  session_createdAt :: int

record QueueJob =
  job_id :: string
  job_type :: JobType
  job_url :: string
  job_formatId :: "string option"
  targetFormat :: "string option"
  inputFile :: "string option"
  dependsOn :: "string option"
  job_status :: JobStatus
  job_createdAt :: int
  startedAt :: "int option"
  completedAt :: "int option"
  job_error :: "string option"
  job_downloadId :: "string option"
  job_progress :: "(nat \<times> nat option \<times> nat option) option"

text \<open>
  \<open>jobs\<close> is a JavaScript \<open>Map\<close>, which iterates in insertion order: an association list.
  \<open>published\<close> is the sequence of events emitted on the bus's \<open>'progress'\<close> channel, oldest
  first, which is what a subscriber observes. \<open>drainLog\<close> is a history variable that no
  code reads: the value of \<open>activeJob\<close> at each entry to \<open>processQueue\<close>.
  The queue's own events (\<open>jobAdded\<close>, \<open>queueUpdated\<close>, ...) have no listener in the
  backend and change no state, so they are left out.
\<close>

record system =
  sessions :: "string \<rightharpoonup> DownloadSession"
  published :: "DownloadProgress list"
  jobs :: "(string \<times> QueueJob) list"
  queue :: "string list"
  activeJob :: "string option"
  drainLog :: "string option list"

definition initial :: system where
  "initial = \<lparr>sessions = Map.empty, published = [], jobs = [], queue = [],
              activeJob = None, drainLog = []\<rparr>"

definition truthy :: "string option \<Rightarrow> bool" where
  \<comment> \<open>an optional string used as a condition: \<open>undefined\<close> and \<open>''\<close> are false\<close>
  "truthy x = (case x of None \<Rightarrow> False | Some v \<Rightarrow> v \<noteq> [])"

definition template :: "string option \<Rightarrow> string" where
  \<comment> \<open>an optional string inside a template literal\<close>
  "template x = (case x of None \<Rightarrow> ''undefined'' | Some v \<Rightarrow> v)"

definition getJob :: "system \<Rightarrow> string \<Rightarrow> QueueJob option" where
  "getJob s k = map_of (jobs s) k"

definition modifyJob :: "string \<Rightarrow> (QueueJob \<Rightarrow> QueueJob) \<Rightarrow> system \<Rightarrow> system" where
  \<comment> \<open>assignments to the fields of the job object stored under key \<open>k\<close>\<close>
  "modifyJob k f s =
     s\<lparr>jobs := map (\<lambda>(k', j). if k' = k then (k', f j) else (k', j)) (jobs s)\<rparr>"

definition queueHead :: "system \<Rightarrow> string option" where
  \<comment> \<open>\<open>this.queue[0]\<close>, \<open>undefined\<close> on the empty queue\<close>
  "queueHead s = (case queue s of [] \<Rightarrow> None | h # _ \<Rightarrow> Some h)"

definition active :: "QueueJob \<Rightarrow> bool" where
  "active j \<longleftrightarrow> job_status j = Downloading \<or> job_status j = Converting"

subsection \<open>Queue internals\<close>

definition canJobStart :: "system \<Rightarrow> QueueJob \<Rightarrow> bool" where
  "canJobStart s job =
     (if \<not> truthy (dependsOn job) then True
      else case getJob s (template (dependsOn job)) of
             None \<Rightarrow> False
           | Some dependency \<Rightarrow> job_status dependency = Completed)"

function processQueue :: "system \<Rightarrow> system" where
  "processQueue s =
     (if activeJob s \<noteq> None \<or> queue s = [] then s\<lparr>drainLog := drainLog s @ [activeJob s]\<rparr>
      else case getJob s (hd (queue s)) of
             None \<Rightarrow> processQueue (s\<lparr>drainLog := drainLog s @ [activeJob s], queue := tl (queue s)\<rparr>)
           | Some nextJob \<Rightarrow> s\<lparr>drainLog := drainLog s @ [activeJob s]\<rparr>)"
  by pat_completeness auto
termination
  by (relation "measure (\<lambda>s. length (queue s))") auto

declare processQueue.simps [simp del]

definition finishJob :: "string \<Rightarrow> system \<Rightarrow> system" where
  "finishJob jobId s =
     processQueue (if activeJob s = Some jobId then s\<lparr>activeJob := None\<rparr> else s)"

definition notifyDependentJobs :: "string \<Rightarrow> system \<Rightarrow> system" where
  \<comment> \<open>the loop only emits \<open>dependencyCompleted\<close> and \<open>queueUpdated\<close>\<close>
  "notifyDependentJobs downloadJobId s = s"

definition failDependentJob :: "int \<Rightarrow> string \<Rightarrow> string \<Rightarrow> string \<Rightarrow> system \<Rightarrow> system" where
  \<comment> \<open>the body of the loop of \<open>failDependentJobs\<close>, for the job stored under key \<open>k\<close>\<close>
  "failDependentJob now downloadJobId err k s =
     (case getJob s k of
        None \<Rightarrow> s
      | Some job \<Rightarrow>
          if job_type job = Convert \<and> dependsOn job = Some downloadJobId \<and> job_status job = Queued
          then modifyJob k (\<lambda>j. j\<lparr>job_status := Failed, job_error := Some err, completedAt := Some now\<rparr>)
                 (s\<lparr>queue := remove1 (job_id job) (queue s)\<rparr>)
          else s)"

definition failDependentJobs :: "int \<Rightarrow> string \<Rightarrow> string \<Rightarrow> system \<Rightarrow> system" where
  "failDependentJobs now downloadJobId err s =
     fold (failDependentJob now downloadJobId err) (map fst (jobs s)) s"

subsection \<open>The queue's listener on the progress bus\<close>

definition onProgress :: "int \<Rightarrow> DownloadProgress \<Rightarrow> system \<Rightarrow> system" where
  "onProgress now p s =
     (case find (\<lambda>(k, j). job_downloadId j = Some (downloadId p)) (jobs s) of
        None \<Rightarrow> s
      | Some (k, job) \<Rightarrow>
          let s1 = modifyJob k (\<lambda>j. j\<lparr>job_progress :=
                     Some (bytesDownloaded p, totalBytes p, percentage p)\<rparr>) s
          in if status p = PCompleted then
               (if job_status job = Downloading \<or> job_status job = Converting then
                  let s2 = modifyJob k (\<lambda>j. j\<lparr>job_status := Completed, completedAt := Some now\<rparr>) s1;
                      s3 = (if job_type job = Download then notifyDependentJobs (job_id job) s2 else s2)
                  in finishJob (job_id job) s3
                else s1)
             else if status p = PError then
               let s2 = modifyJob k (\<lambda>j. j\<lparr>job_status := Failed, job_error := error p,
                          completedAt := Some now\<rparr>) s1;
                   s3 = (if job_type job = Download
                         then failDependentJobs now (job_id job)
                                (''Dependency failed: '' @ template (error p)) s2
                         else s2)
               in finishJob (job_id job) s3
             else s1)"

definition emit :: "int \<Rightarrow> DownloadProgress \<Rightarrow> system \<Rightarrow> system" where
  \<comment> \<open>\<open>this.emit('progress', p)\<close>: subscribers see \<open>p\<close>, and the queue's listener runs\<close>
  "emit now p s = onProgress now p (s\<lparr>published := published s @ [p]\<rparr>)"

subsection \<open>Progress bus operations\<close>

definition createSession :: "int \<Rightarrow> string \<Rightarrow> string \<Rightarrow> string option \<Rightarrow> string \<Rightarrow> system \<Rightarrow> string \<times> system" where
  "createSession now u f downloadIdOpt gen s =
     (let i = (if truthy downloadIdOpt then template downloadIdOpt else gen)
      in if sessions s i \<noteq> None then (i, s)
         else (i, s\<lparr>sessions := (sessions s)(i \<mapsto>
                \<lparr>session_downloadId = i, session_url = u, session_formatId = f,
                 progress = \<lparr>downloadId = i, bytesDownloaded = 0, totalBytes = None,
                             percentage = None, status = PDownloading, error = None\<rparr>,
                 session_createdAt = now\<rparr>)\<rparr>))"

definition round_percent :: "nat \<Rightarrow> nat \<Rightarrow> nat" where
  \<comment> \<open>\<open>Math.round((bytes / total) * 100)\<close> for \<open>total > 0\<close>: the quotient is rounded to
      a double, and so is its product with 100\<close>
  "round_percent bytes tot =
     (let ratio = toDouble bytes tot
      in mathRound (toDouble (fst ratio * 100) (snd ratio)))"

definition updateProgress :: "int \<Rightarrow> string \<Rightarrow> nat \<Rightarrow> nat option \<Rightarrow> system \<Rightarrow> system" where
  "updateProgress now i bytes tot s =
     (case sessions s i of
        None \<Rightarrow> s
      | Some session \<Rightarrow>
          let p = \<lparr>downloadId = i, bytesDownloaded = bytes, totalBytes = tot,
                   percentage = (case tot of
                                   None \<Rightarrow> None
                                 | Some t \<Rightarrow> if t = 0 then None else Some (round_percent bytes t)),
                   status = PDownloading, error = None\<rparr>
          in emit now p (s\<lparr>sessions := (sessions s)(i \<mapsto> session\<lparr>progress := p\<rparr>)\<rparr>))"

definition markCompleted :: "int \<Rightarrow> string \<Rightarrow> system \<Rightarrow> system" where
  "markCompleted now i s =
     (case sessions s i of
        None \<Rightarrow> s
      | Some session \<Rightarrow>
          let p = (progress session)\<lparr>status := PCompleted, percentage := Some 100\<rparr>
          in emit now p (s\<lparr>sessions := (sessions s)(i \<mapsto> session\<lparr>progress := p\<rparr>)\<rparr>))"

definition markError :: "int \<Rightarrow> string \<Rightarrow> string \<Rightarrow> system \<Rightarrow> system" where
  "markError now i err s =
     (case sessions s i of
        None \<Rightarrow> s
      | Some session \<Rightarrow>
          let p = (progress session)\<lparr>status := PError, error := Some err\<rparr>
          in emit now p (s\<lparr>sessions := (sessions s)(i \<mapsto> session\<lparr>progress := p\<rparr>)\<rparr>))"

definition cancelDownload :: "int \<Rightarrow> string \<Rightarrow> system \<Rightarrow> bool \<times> system" where
  \<comment> \<open>the removal of the session five seconds later is \<open>sessionExpired\<close>\<close>
  "cancelDownload now i s =
     (case sessions s i of
        None \<Rightarrow> (False, s)
      | Some session \<Rightarrow>
          let p = (progress session)\<lparr>status := PCancelled\<rparr>
          in (True, emit now p (s\<lparr>sessions := (sessions s)(i \<mapsto> session\<lparr>progress := p\<rparr>)\<rparr>)))"

definition sessionExpired :: "string \<Rightarrow> system \<Rightarrow> system" where
  "sessionExpired i s = s\<lparr>sessions := (sessions s)(i := None)\<rparr>"

definition terminal :: "ProgressStatus \<Rightarrow> bool" where
  "terminal st \<longleftrightarrow> st = PCompleted \<or> st = PError \<or> st = PCancelled"

definition cleanupSessions :: "int \<Rightarrow> system \<Rightarrow> system" where
  "cleanupSessions now s =
     s\<lparr>sessions := (\<lambda>i. case sessions s i of
                          None \<Rightarrow> None
                        | Some session \<Rightarrow>
                            if now - session_createdAt session > 30 * 60 * 1000
                               \<and> terminal (status (progress session))
                            then None else Some session)\<rparr>"

subsection \<open>Queue operations\<close>

definition newJob :: "string \<Rightarrow> JobType \<Rightarrow> string \<Rightarrow> int \<Rightarrow> QueueJob" where
  "newJob i t u now =
     \<lparr>job_id = i, job_type = t, job_url = u, job_formatId = None, targetFormat = None,
      inputFile = None, dependsOn = None, job_status = Queued, job_createdAt = now,
      startedAt = None, completedAt = None, job_error = None, job_downloadId = None,
      job_progress = None\<rparr>"

definition addDownloadJob ::
    "int \<Rightarrow> string \<Rightarrow> string \<Rightarrow> string option \<Rightarrow> string \<Rightarrow> system \<Rightarrow> (string \<times> bool) \<times> system" where
  \<comment> \<open>for an id that exists the source compares \<open>this.processing\<close>, a property the class
      does not have, with \<open>null\<close>: the comparison is false, and so is \<open>canStart\<close>\<close>
  "addDownloadJob now u f jobIdOpt gen s =
     (let i = (if truthy jobIdOpt then template jobIdOpt else gen)
      in case getJob s i of
           Some existingJob \<Rightarrow> ((i, False), s)
         | None \<Rightarrow>
             let job = (newJob i Download u now)\<lparr>job_formatId := Some f\<rparr>;
                 s1 = s\<lparr>jobs := jobs s @ [(i, job)], queue := queue s @ [i]\<rparr>;
                 canStart = (activeJob s1 = None \<and> queueHead s1 = Some i)
             in ((i, canStart), if canStart then processQueue s1 else s1))"

datatype QueueError = DependencyNotFound string | DependencyNotDownload string

definition addConvertJob ::
    "int \<Rightarrow> string \<Rightarrow> string \<Rightarrow> string option \<Rightarrow> string option \<Rightarrow> string option \<Rightarrow> string
       \<Rightarrow> system \<Rightarrow> QueueError + ((string \<times> bool) \<times> system)" where
  "addConvertJob now u fmt dependsOnOpt inputFileOpt jobIdOpt gen s =
     (let i = (if truthy jobIdOpt then template jobIdOpt else gen)
      in case getJob s i of
           Some existingJob \<Rightarrow>
             Inr ((i, job_status existingJob = Queued \<and> activeJob s = None
                       \<and> canJobStart s existingJob), s)
         | None \<Rightarrow>
             let job = (newJob i Convert u now)\<lparr>targetFormat := Some fmt,
                          dependsOn := dependsOnOpt, inputFile := inputFileOpt\<rparr>;
                 s1 = s\<lparr>jobs := jobs s @ [(i, job)], queue := queue s @ [i]\<rparr>;
                 canStart = (activeJob s1 = None \<and> queueHead s1 = Some i \<and> canJobStart s1 job);
                 added = Inr ((i, canStart), if canStart then processQueue s1 else s1)
             in if truthy dependsOnOpt then
                  (case getJob s (template dependsOnOpt) of
                     None \<Rightarrow> Inl (DependencyNotFound (template dependsOnOpt))
                   | Some dependency \<Rightarrow>
                       if job_type dependency \<noteq> Download
                       then Inl (DependencyNotDownload (template dependsOnOpt))
                       else added)
                else added)"

definition startJob :: "int \<Rightarrow> string \<Rightarrow> string \<Rightarrow> system \<Rightarrow> bool \<times> system" where
  "startJob now jobId dlId s =
     (case getJob s jobId of
        None \<Rightarrow> (False, s)
      | Some job \<Rightarrow>
          if activeJob s \<noteq> None then (False, s)
          else if queueHead s \<noteq> Some jobId then (False, s)
          else if \<not> canJobStart s job then (False, s)
          else (True,
                modifyJob jobId
                  (\<lambda>j. j\<lparr>job_status := (if job_type job = Download then Downloading else Converting),
                         startedAt := Some now, job_downloadId := Some dlId\<rparr>)
                  (s\<lparr>queue := tl (queue s), activeJob := Some jobId\<rparr>)))"

definition completeJob :: "int \<Rightarrow> string \<Rightarrow> system \<Rightarrow> system" where
  "completeJob now jobId s =
     (case getJob s jobId of
        None \<Rightarrow> s
      | Some job \<Rightarrow>
          let s1 = modifyJob jobId (\<lambda>j. j\<lparr>job_status := Completed, completedAt := Some now\<rparr>) s;
              s2 = (if job_type job = Download then notifyDependentJobs (job_id job) s1 else s1)
          in finishJob jobId s2)"

definition failJob :: "int \<Rightarrow> string \<Rightarrow> string \<Rightarrow> system \<Rightarrow> system" where
  "failJob now jobId err s =
     (case getJob s jobId of
        None \<Rightarrow> s
      | Some job \<Rightarrow>
          let s1 = modifyJob jobId (\<lambda>j. j\<lparr>job_status := Failed, job_error := Some err,
                     completedAt := Some now\<rparr>) s;
              s2 = (if job_type job = Download
                    then failDependentJobs now (job_id job) (''Dependency failed: '' @ err) s1
                    else s1)
          in finishJob jobId s2)"

definition cancelJob :: "int \<Rightarrow> string \<Rightarrow> system \<Rightarrow> bool \<times> system" where
  "cancelJob now jobId s =
     (case getJob s jobId of
        None \<Rightarrow> (False, s)
      | Some job \<Rightarrow>
          let s1 = s\<lparr>queue := remove1 jobId (queue s)\<rparr>;
              s2 = (if activeJob s1 = Some jobId
                    then (if truthy (job_downloadId job)
                          then snd (cancelDownload now (template (job_downloadId job)) s1)
                          else s1)\<lparr>activeJob := None\<rparr>
                    else s1);
              s3 = modifyJob jobId (\<lambda>j. j\<lparr>job_status := Failed,
                     job_error := Some ''Cancelled by user'', completedAt := Some now\<rparr>) s2
          in (True, processQueue s3))"

definition setConvertJobInputFile :: "string \<Rightarrow> string \<Rightarrow> system \<Rightarrow> bool \<times> system" where
  "setConvertJobInputFile convertJobId f s =
     (case getJob s convertJobId of
        None \<Rightarrow> (False, s)
      | Some job \<Rightarrow>
          if job_type job \<noteq> Convert then (False, s)
          else (True, modifyJob convertJobId (\<lambda>j. j\<lparr>inputFile := Some f\<rparr>) s))"

definition cleanupOldJobs :: "int \<Rightarrow> int \<Rightarrow> system \<Rightarrow> system" where
  "cleanupOldJobs now maxAge s =
     s\<lparr>jobs := filter (\<lambda>(k, j). \<not> ((job_status j = Completed \<or> job_status j = Failed)
                          \<and> (case completedAt j of None \<Rightarrow> False | Some c \<Rightarrow> now - c > maxAge)))
                 (jobs s)\<rparr>"

definition setJobDownloadId :: "string \<Rightarrow> string \<Rightarrow> system \<Rightarrow> system" where
  \<comment> \<open>the route handlers assign \<open>job.downloadId = progressDownloadId\<close> on the job they started\<close>
  "setJobDownloadId jobId dlId s = modifyJob jobId (\<lambda>j. j\<lparr>job_downloadId := Some dlId\<rparr>) s"

subsection \<open>Runs of the two services\<close>

datatype call =
    AddDownloadJob int string string "string option" string
  | AddConvertJob int string string "string option" "string option" "string option" string
  | StartJob int string string
  | CompleteJob int string
  | FailJob int string string
  | CancelJob int string
  | ProgressEvent int DownloadProgress
  | SetConvertJobInputFile string string
  | SetJobDownloadId string string
  | CleanupOldJobs int int
  | CreateSession int string string "string option" string
  | UpdateProgress int string nat "nat option"
  | MarkCompleted int string
  | MarkError int string string
  | CancelDownload int string
  | SessionExpired string
  | CleanupSessions int

fun exec :: "call \<Rightarrow> system \<Rightarrow> system" where
  "exec (AddDownloadJob now u f jobIdOpt gen) s = snd (addDownloadJob now u f jobIdOpt gen s)"
| "exec (AddConvertJob now u fmt dep inp jobIdOpt gen) s =
     (case addConvertJob now u fmt dep inp jobIdOpt gen s of Inl e \<Rightarrow> s | Inr r \<Rightarrow> snd r)"
| "exec (StartJob now jobId dlId) s = snd (startJob now jobId dlId s)"
| "exec (CompleteJob now jobId) s = completeJob now jobId s"
| "exec (FailJob now jobId err) s = failJob now jobId err s"
| "exec (CancelJob now jobId) s = snd (cancelJob now jobId s)"
| "exec (ProgressEvent now p) s = onProgress now p s"
| "exec (SetConvertJobInputFile jobId f) s = snd (setConvertJobInputFile jobId f s)"
| "exec (SetJobDownloadId jobId dlId) s = setJobDownloadId jobId dlId s"
| "exec (CleanupOldJobs now maxAge) s = cleanupOldJobs now maxAge s"
| "exec (CreateSession now u f dlIdOpt gen) s = snd (createSession now u f dlIdOpt gen s)"
| "exec (UpdateProgress now i bytes tot) s = updateProgress now i bytes tot s"
| "exec (MarkCompleted now i) s = markCompleted now i s"
| "exec (MarkError now i err) s = markError now i err s"
| "exec (CancelDownload now i) s = snd (cancelDownload now i s)"
| "exec (SessionExpired i) s = sessionExpired i s"
| "exec (CleanupSessions now) s = cleanupSessions now s"

definition run :: "call list \<Rightarrow> system \<Rightarrow> system" where
  \<comment> \<open>the calls are served one after the other, in the order of the list\<close>
  "run calls s = fold exec calls s"

definition activeJobs :: "system \<Rightarrow> QueueJob list" where
  \<comment> \<open>the jobs that \<open>getQueueState\<close> counts in \<open>processingCount\<close>\<close>
  "activeJobs s = filter active (map snd (jobs s))"

definition wellKeyed :: "system \<Rightarrow> bool" where
  \<comment> \<open>every job is stored under its own id, once\<close>
  "wellKeyed s \<longleftrightarrow> distinct (map fst (jobs s)) \<and> (\<forall>(k, j) \<in> set (jobs s). job_id j = k)"

definition singleActive :: "system \<Rightarrow> bool" where
  "singleActive s \<longleftrightarrow> (\<forall>(k, j) \<in> set (jobs s). active j \<longrightarrow> activeJob s = Some k)"

definition queueInv :: "system \<Rightarrow> bool" where
  "queueInv s \<longleftrightarrow> wellKeyed s \<and> singleActive s"

definition one_queued :: system where
  "one_queued = run [AddDownloadJob 0 ''u'' ''22'' (Some ''j1'') ''g1''] initial"

definition one_active_one_queued :: system where
  "one_active_one_queued =
     run [AddDownloadJob 0 ''u'' ''22'' (Some ''j1'') ''g1'', StartJob 1 ''j1'' ''j1'',
          AddDownloadJob 2 ''v'' ''18'' (Some ''j2'') ''g2''] initial"

definition download_with_dependent :: system where
  "download_with_dependent =
     run [AddDownloadJob 0 ''u'' ''22'' (Some ''j1'') ''g1'',
          AddConvertJob 1 ''u'' ''mp3'' (Some ''j1'') None (Some ''j2'') ''g2''] initial"

definition started_dependency_completed :: system where
  "started_dependency_completed =
     run [AddDownloadJob 0 ''u'' ''22'' (Some ''j1'') ''g1'',
          AddConvertJob 1 ''u'' ''mp3'' (Some ''j1'') None (Some ''j2'') ''g2'',
          StartJob 2 ''j1'' ''j1'', CompleteJob 3 ''j1''] initial"

definition started_dependency_failed :: system where
  "started_dependency_failed =
     run [AddDownloadJob 0 ''u'' ''22'' (Some ''j1'') ''g1'',
          AddConvertJob 1 ''u'' ''mp3'' (Some ''j1'') None (Some ''j2'') ''g2'',
          StartJob 2 ''j1'' ''j1'', CancelJob 3 ''j1''] initial"

definition completed_download :: system where
  "completed_download =
     run [AddDownloadJob 0 ''u'' ''22'' (Some ''j1'') ''g1'', StartJob 1 ''j1'' ''j1'',
          CompleteJob 2 ''j1''] initial"


section \<open>Streaming a download (services/downloadService, routes/download)\<close>

text \<open>
  \<open>streamDownload\<close> spawns the extractor and installs handlers; the route handler installs
  two more on the returned stream. The local variables the handlers share are a record, and
  what the child process and the stream do arrives as a list of events, each with its
  handler. \<open>StderrData\<close> carries what the handler computes from the text with its regular
  expression, \<open>parseFloat\<close>, the unit factor and \<open>Math.round\<close>: \<open>None\<close> when the chunk
  has no progress line, otherwise the total in bytes. \<open>StreamEnd\<close> and \<open>StreamError\<close> are the
  route handler's \<open>end\<close> and \<open>error\<close> handlers, and \<open>CancelRequested\<close> is a call of
  \<open>cancelDownload\<close> for this download, from the cancel route or from \<open>cancelJob\<close>.
  \<open>exited\<close> says that the process has an exit code. The byte counter and the totals
  are natural numbers: the source's numbers are exact below \<open>2\<^sup>5\<^sup>3\<close>.
\<close>

fun str_includes :: "string \<Rightarrow> string \<Rightarrow> bool" where
  "str_includes [] sub = (sub = [])"
| "str_includes (c # cs) sub = (take (length sub) (c # cs) = sub \<or> str_includes cs sub)"

function decimal :: "nat \<Rightarrow> string" where
  "decimal n = (if n < 10 then [''0123456789'' ! n]
                else decimal (n div 10) @ [''0123456789'' ! (n mod 10)])"
  by pat_completeness auto
termination
  by (relation "measure id") auto

declare decimal.simps [simp del]

definition string_of_int :: "int \<Rightarrow> string" where
  "string_of_int i = (if i < 0 then CHR ''-'' # decimal (nat (- i)) else decimal (nat i))"

record download =
  dl_downloadId :: string
  dl_jobId :: "string option"
  dl_bytesDownloaded :: nat
  isCleanedUp :: bool
  timeoutArmed :: bool
  killed :: bool
  exited :: bool

datatype streamEvent =
    Chunk nat
  | Flush
  | StderrData "nat option"
  | SpawnError string
  | TimeoutFired
  | ProcessExit "int option" "string option"
  | ProcessClose "int option" "string option"
  | Cleanup
  | StreamEnd
  | StreamError string
  | CancelRequested

definition cleanup :: "download \<Rightarrow> download" where
  "cleanup d =
     (if isCleanedUp d then d
      else d\<lparr>isCleanedUp := True, timeoutArmed := False,
             killed := (if \<not> killed d \<and> \<not> exited d then True else killed d)\<rparr>)"

definition onExit :: "int \<Rightarrow> string \<Rightarrow> int option \<Rightarrow> string option \<Rightarrow> download \<times> system \<Rightarrow> download \<times> system" where
  "onExit now verb code signal ds =
     (let d = fst ds; s = snd ds
      in if isCleanedUp d then (d, s)
         else let d1 = d\<lparr>timeoutArmed := False\<rparr>
              in case code of
                   None \<Rightarrow> (d1, s)
                 | Some c \<Rightarrow>
                     if c \<noteq> 0 then
                       (d1, markError now (dl_downloadId d)
                              (if truthy signal
                               then ''yt-dlp process killed by signal '' @ template signal
                               else ''yt-dlp process '' @ verb @ '' with code '' @ string_of_int c) s)
                     else (d1, markCompleted now (dl_downloadId d) s))"

fun streamStep :: "int \<Rightarrow> streamEvent \<Rightarrow> download \<times> system \<Rightarrow> download \<times> system" where
  "streamStep now (Chunk n) (d, s) =
     (let b = dl_bytesDownloaded d + n; d1 = d\<lparr>dl_bytesDownloaded := b\<rparr>
      in if b mod 65536 = 0 \<or> n \<ge> 65536
         then (d1, updateProgress now (dl_downloadId d) b None s)
         else (d1, s))"
| "streamStep now Flush (d, s) =
     (d, markCompleted now (dl_downloadId d)
           (updateProgress now (dl_downloadId d) (dl_bytesDownloaded d) None s))"
| "streamStep now (StderrData parsed) (d, s) =
     (case parsed of
        None \<Rightarrow> (d, s)
      | Some t \<Rightarrow> (d, updateProgress now (dl_downloadId d) (dl_bytesDownloaded d) (Some t) s))"
| "streamStep now (SpawnError msg) (d, s) =
     (if isCleanedUp d then (d, s)
      else (d\<lparr>timeoutArmed := False\<rparr>,
            markError now (dl_downloadId d)
              (if str_includes msg ''ENOENT'' then ''yt-dlp not found. Please install yt-dlp.''
               else ''yt-dlp process error: '' @ msg) s))"
| "streamStep now TimeoutFired (d, s) =
     (if \<not> timeoutArmed d then (d, s)
      else if killed d then (d\<lparr>timeoutArmed := False\<rparr>, s)
      else (d\<lparr>timeoutArmed := False, killed := True\<rparr>,
            markError now (dl_downloadId d) ''Download timeout'' s))"
| "streamStep now (ProcessExit code signal) (d, s) =
     onExit now ''exited'' code signal (d\<lparr>exited := (code \<noteq> None \<or> exited d)\<rparr>, s)"
| "streamStep now (ProcessClose code signal) (d, s) =
     onExit now ''closed'' code signal (d, s)"
| "streamStep now Cleanup (d, s) = (cleanup d, s)"
| "streamStep now StreamEnd (d, s) =
     (d, markCompleted now (dl_downloadId d)
           (case dl_jobId d of None \<Rightarrow> s | Some j \<Rightarrow> completeJob now j s))"
| "streamStep now (StreamError msg) (d, s) =
     (let m = (if msg = [] then ''Download failed'' else msg);
          s1 = markError now (dl_downloadId d) m s
      in (cleanup d, case dl_jobId d of None \<Rightarrow> s1 | Some j \<Rightarrow> failJob now j m s1))"
| "streamStep now CancelRequested (d, s) =
     (case sessions s (dl_downloadId d) of
        None \<Rightarrow> (d, s)
      | Some session \<Rightarrow>
          (d\<lparr>killed := (if \<not> killed d \<and> \<not> exited d then True else killed d)\<rparr>,
           snd (cancelDownload now (dl_downloadId d) s)))"

fun streamRun :: "(int \<times> streamEvent) list \<Rightarrow> download \<times> system \<Rightarrow> download \<times> system" where
  "streamRun [] ds = ds"
| "streamRun ((now, e) # es) ds = streamRun es (streamStep now e ds)"





text \<open>Concrete states used below.\<close>

definition errored_session :: system where
  "errored_session =
     run [CreateSession 0 ''u'' ''22'' (Some ''d1'') ''g1'', MarkError 1 ''d1'' ''Download timeout''] initial"







section \<open>URL policy (backend/src/utils/urlValidator)\<close>

text \<open>
  \<open>isValidUrl\<close> calls the platform's \<open>new URL(url)\<close>, which is not code of the repository:
  it is the parameter \<open>parseURL\<close>, \<open>None\<close> when the constructor throws and otherwise the
  \<open>protocol\<close> and \<open>hostname\<close> properties of the result. The argument is a string (the
  source answers false for any other type). A \<open>char\<close> stands for a code unit below 256;
  host names that the platform serialises are ASCII.
\<close>

definition startsWith :: "string \<Rightarrow> string \<Rightarrow> bool" where
  \<comment> \<open>the regular expression \<open>/^p/\<close> for a literal \<open>p\<close>\<close>
  "startsWith p h \<longleftrightarrow> take (length p) h = p"

definition toLowerCaseChar :: "char \<Rightarrow> char" where
  \<comment> \<open>\<open>toLowerCase\<close> on a code unit below 256: A-Z, and the Latin-1 capitals\<close>
  "toLowerCaseChar c =
     (let n = (of_char c :: nat)
      in if (65 \<le> n \<and> n \<le> 90) \<or> (192 \<le> n \<and> n \<le> 214) \<or> (216 \<le> n \<and> n \<le> 222)
         then char_of (n + 32) else c)"

definition toLowerCase :: "string \<Rightarrow> string" where
  "toLowerCase h = map toLowerCaseChar h"

definition foldAscii :: "char \<Rightarrow> char" where
  \<comment> \<open>the case folding of the flag \<open>i\<close>, which for a pattern of ASCII letters folds A-Z only\<close>
  "foldAscii c =
     (let n = (of_char c :: nat) in if 65 \<le> n \<and> n \<le> 90 then char_of (n + 32) else c)"

definition startsWithI :: "string \<Rightarrow> string \<Rightarrow> bool" where
  \<comment> \<open>\<open>/^p/i\<close> for a lower-case literal \<open>p\<close>\<close>
  "startsWithI p h \<longleftrightarrow> map foldAscii (take (length p) h) = p"

definition private172 :: "string \<Rightarrow> bool" where
  \<comment> \<open>\<open>/^172\.(1[6-9]|2[0-9]|3[0-1])\./\<close>\<close>
  "private172 h \<longleftrightarrow>
     startsWith ''172.'' h \<and>
     (case drop 4 h of
        a # b # c # _ \<Rightarrow>
          c = CHR ''.'' \<and>
          ((a = CHR ''1'' \<and> b \<in> set ''6789'')
           \<or> (a = CHR ''2'' \<and> b \<in> set ''0123456789'')
           \<or> (a = CHR ''3'' \<and> b \<in> set ''01''))
      | _ \<Rightarrow> False)"

definition BLOCKED_PATTERNS :: "(string \<Rightarrow> bool) list" where
  "BLOCKED_PATTERNS =
     [startsWithI ''localhost'', startsWith ''127.'', startsWith ''192.168.'', startsWith ''10.'',
      private172, startsWith ''0.0.0.0'', startsWithI ''file:'', startsWithI ''ftp:'',
      startsWithI ''data:'', startsWithI ''javascript:'', startsWithI ''vbscript:'']"

definition isValidUrl :: "(string \<Rightarrow> (string \<times> string) option) \<Rightarrow> string \<Rightarrow> bool" where
  "isValidUrl parseURL url =
     (if url = [] then False
      else if length url > 2048 then False
      else case parseURL url of
             None \<Rightarrow> False
           | Some (protocol, host) \<Rightarrow>
               if protocol \<noteq> ''http:'' \<and> protocol \<noteq> ''https:'' then False
               else let hostname = toLowerCase host
                    in if list_ex (\<lambda>pattern. pattern hostname) BLOCKED_PATTERNS then False
                       else if hostname = ''localhost'' \<or> hostname = ''127.0.0.1'' \<or> hostname = ''::1''
                       then False
                       else if hostname = [] then False
                       else True)"

text \<open>
  The blocklist in the words of the specification: a host that starts with \<open>localhost\<close>,
  \<open>127.\<close>, \<open>192.168.\<close>, \<open>10.\<close>, \<open>172.N.\<close> for \<open>N\<close> from 16 to 31, or \<open>0.0.0.0\<close>, or
  that is \<open>::1\<close>. \<open>schemeLike\<close> is the rest of \<open>BLOCKED_PATTERNS\<close>.
\<close>

definition schemeLike :: "string \<Rightarrow> bool" where
  "schemeLike h \<longleftrightarrow>
     startsWith ''file:'' h \<or> startsWith ''ftp:'' h \<or> startsWith ''data:'' h
     \<or> startsWith ''javascript:'' h \<or> startsWith ''vbscript:'' h"

definition blocklistMatch :: "string \<Rightarrow> bool" where
  "blocklistMatch h \<longleftrightarrow>
     startsWith ''localhost'' h \<or> startsWith ''127.'' h \<or> startsWith ''192.168.'' h
     \<or> startsWith ''10.'' h
     \<or> (\<exists>n \<in> {16..31}. startsWith (''172.'' @ decimal n @ ''.'') h)
     \<or> startsWith ''0.0.0.0'' h \<or> h = ''::1''"

text \<open>
  A parser for the examples: it splits \<open>scheme://host/path\<close> as the platform does for
  the URLs used below.
\<close>

definition simpleParse :: "string \<Rightarrow> (string \<times> string) option" where
  "simpleParse url =
     (if startsWith ''https://'' url then Some (''https:'', takeWhile (\<lambda>c. c \<noteq> CHR ''/'') (drop 8 url))
      else if startsWith ''http://'' url then Some (''http:'', takeWhile (\<lambda>c. c \<noteq> CHR ''/'') (drop 7 url))
      else if startsWith ''file://'' url then Some (''file:'', takeWhile (\<lambda>c. c \<noteq> CHR ''/'') (drop 7 url))
      else None)"

section \<open>Normalising the extractor's formats (services/ytdlpService)\<close>

text \<open>
  A format of the extractor's JSON is a record of optional fields; a field is \<open>None\<close>
  when the JSON has no such property or has \<open>null\<close>. Strings and numbers have the types
  the source expects, and dimensions and sizes are natural numbers. \<open>formatFileSize\<close>
  works in floating point (\<open>toFixed\<close>, \<open>parseFloat\<close>); it is a parameter. A resolution
  value is a number: a double that is an integer, or \<open>Infinity\<close>.
\<close>

record RawFormat =
  format_id :: "string option"
  ext :: "string option"
  protocol :: "string option"
  vcodec :: "string option"
  acodec :: "string option"
  height :: "nat option"
  width :: "nat option"
  resolution :: "string option"
  filesize :: "nat option"
  filesize_approx :: "nat option"

datatype FormatType = Video | Audio

text \<open>
  What \<open>normalizeContainerType\<close> returns. \<open>containerMap\<close> is an object literal, so a name
  that is not one of its five keys is looked up on \<open>Object.prototype\<close>, whose members with
  a lower-case name are \<open>constructor\<close> (the function \<open>Object\<close>) and \<open>__proto__\<close> (the
  prototype itself). Both are truthy, and the function returns them in place of a string.
\<close>

datatype container = Name string | ObjectFunction | ObjectPrototype

definition containerText :: "container \<Rightarrow> string" where
  \<comment> \<open>a container inside a template literal\<close>
  "containerText c =
     (case c of
        Name e \<Rightarrow> e
      | ObjectFunction \<Rightarrow> ''function Object() { [native code] }''
      | ObjectPrototype \<Rightarrow> ''[object Object]'')"

record FormatInfo =
  out_format_id :: string
  out_ext :: container
  out_resolution :: string
  out_filesize :: string
  out_type :: FormatType

definition truthyNum :: "nat option \<Rightarrow> bool" where
  \<comment> \<open>an optional number used as a condition: \<open>undefined\<close> and 0 are false\<close>
  "truthyNum x = (case x of None \<Rightarrow> False | Some n \<Rightarrow> n \<noteq> 0)"

definition number :: "nat option \<Rightarrow> nat" where
  "number x = (case x of None \<Rightarrow> 0 | Some n \<Rightarrow> n)"

definition trim :: "string \<Rightarrow> string" where
  "trim s = strip_ends (\<lambda>c. is_space (of_char c)) s"

definition typeName :: "FormatType \<Rightarrow> string" where
  "typeName t = (case t of Video \<Rightarrow> ''video'' | Audio \<Rightarrow> ''audio'')"

definition normalizeContainerType :: "string \<Rightarrow> container" where
  "normalizeContainerType e =
     (let normalized = trim (toLowerCase e)
      in case map_of [(''m4a'', ''mp4''), (''m4v'', ''mp4''), (''webma'', ''webm''),
                      (''webmv'', ''webm''), (''ogg'', ''opus'')] normalized of
           Some v \<Rightarrow> Name v
         | None \<Rightarrow>
             if normalized = ''constructor'' then ObjectFunction
             else if normalized = ''__proto__'' then ObjectPrototype
             else Name normalized)"

definition endsWith :: "string \<Rightarrow> string \<Rightarrow> bool" where
  "endsWith s suffix \<longleftrightarrow> drop (length s - length suffix) s = suffix \<and> length suffix \<le> length s"

definition normalizeResolution :: "RawFormat \<Rightarrow> FormatType \<Rightarrow> string" where
  "normalizeResolution format t =
     (if t = Audio then ''audio''
      else if truthy (resolution format) \<and> resolution format \<noteq> Some ''unknown''
              \<and> (CHR ''x'' \<in> set (trim (template (resolution format)))
                   \<or> endsWith (trim (template (resolution format))) ''p'')
      then trim (template (resolution format))
      else if truthyNum (width format) \<and> truthyNum (height format)
      then decimal (number (width format)) @ ''x'' @ decimal (number (height format))
      else if truthyNum (height format) then decimal (number (height format)) @ ''p''
      else ''unknown'')"

definition normalizeFileSize :: "(nat \<Rightarrow> string) \<Rightarrow> nat option \<Rightarrow> nat option \<Rightarrow> string" where
  "normalizeFileSize formatFileSize fs approx =
     (if truthyNum fs \<and> number fs > 0 then formatFileSize (number fs)
      else if truthyNum approx \<and> number approx > 0 then CHR ''~'' # formatFileSize (number approx)
      else ''unknown'')"

definition isDigit :: "char \<Rightarrow> bool" where
  "isDigit c \<longleftrightarrow> c \<in> set ''0123456789''"

definition digitValue :: "char \<Rightarrow> nat" where
  "digitValue c = (of_char c :: nat) - 48"

definition parseInt :: "string \<Rightarrow> enat" where
  \<comment> \<open>\<open>parseInt(ds, 10)\<close> on a string of decimal digits: the number that stands for the
      integer the digits denote\<close>
  "parseInt ds = numberValue (foldl (\<lambda>n c. 10 * n + digitValue c) 0 ds)"

definition extractResolutionValue :: "string \<Rightarrow> enat" where
  \<comment> \<open>the first match of \<open>/(\d+)p?/\<close> is the first maximal run of digits\<close>
  "extractResolutionValue r =
     (let ds = takeWhile isDigit (dropWhile (\<lambda>c. \<not> isDigit c) r)
      in if ds = [] then 0 else parseInt ds)"

definition hasVideo :: "RawFormat \<Rightarrow> bool" where
  "hasVideo format \<longleftrightarrow> truthy (vcodec format) \<and> vcodec format \<noteq> Some ''none''"

definition hasAudio :: "RawFormat \<Rightarrow> bool" where
  "hasAudio format \<longleftrightarrow> truthy (acodec format) \<and> acodec format \<noteq> Some ''none''"

definition skipped :: "RawFormat \<Rightarrow> bool" where
  \<comment> \<open>the four \<open>continue\<close> statements at the head of the loop\<close>
  "skipped format \<longleftrightarrow>
     \<not> truthy (format_id format) \<or> \<not> truthy (ext format)
     \<or> ext format = Some ''m3u8'' \<or> protocol format = Some ''m3u8_native''
     \<or> (\<not> hasVideo format \<and> \<not> hasAudio format)
     \<or> (hasVideo format \<and> \<not> truthyNum (height format) \<and> \<not> truthyNum (width format)
          \<and> \<not> truthy (resolution format))"

definition processFormat :: "(nat \<Rightarrow> string) \<Rightarrow> RawFormat \<Rightarrow> FormatInfo" where
  \<comment> \<open>the object the loop builds for a format it does not skip\<close>
  "processFormat formatFileSize format =
     (let t = (if hasVideo format then Video else Audio)
      in \<lparr>out_format_id = template (format_id format),
          out_ext = normalizeContainerType (template (ext format)),
          out_resolution = normalizeResolution format t,
          out_filesize = normalizeFileSize formatFileSize (filesize format) (filesize_approx format),
          out_type = t\<rparr>)"

definition sameKind :: "FormatInfo \<Rightarrow> FormatInfo \<Rightarrow> bool" where
  \<comment> \<open>the test of \<open>findIndex\<close>\<close>
  "sameKind g f \<longleftrightarrow> out_type f = out_type g \<and> out_ext f = out_ext g
     \<and> out_resolution f = out_resolution g"

definition formatKey :: "FormatInfo \<Rightarrow> string" where
  "formatKey f =
     typeName (out_type f) @ ''-'' @ containerText (out_ext f) @ ''-'' @ out_resolution f"

fun findIndex :: "('a \<Rightarrow> bool) \<Rightarrow> 'a list \<Rightarrow> nat option" where
  "findIndex P [] = None"
| "findIndex P (x # xs) = (if P x then Some 0 else map_option Suc (findIndex P xs))"

definition loopBody :: "(nat \<Rightarrow> string) \<Rightarrow> RawFormat \<Rightarrow> FormatInfo list \<times> string list
    \<Rightarrow> FormatInfo list \<times> string list" where
  \<comment> \<open>one iteration over \<open>rawFormats\<close>; the state is \<open>processedFormats\<close> and \<open>seenFormats\<close>\<close>
  "loopBody formatFileSize format st =
     (let processedFormats = fst st; seenFormats = snd st
      in if skipped format then st
         else let f = processFormat formatFileSize format
              in if formatKey f \<in> set seenFormats then
                   (case findIndex (sameKind f) processedFormats of
                      None \<Rightarrow> st
                    | Some existingIndex \<Rightarrow>
                        if out_filesize f \<noteq> ''unknown''
                           \<and> out_filesize (processedFormats ! existingIndex) = ''unknown''
                        then (processedFormats[existingIndex := f], seenFormats)
                        else st)
                 else (processedFormats @ [f], seenFormats @ [formatKey f]))"

definition differenceSign :: "enat \<Rightarrow> enat \<Rightarrow> int" where
  \<comment> \<open>the sign of the difference \<open>x - y\<close> of two numbers, which is what the sort reads of
      it: the difference of two doubles is rounded but keeps its sign, and
      \<open>Infinity - Infinity\<close> is \<open>NaN\<close>, which the sort takes for 0\<close>
  "differenceSign x y = (if x < y then - 1 else if y < x then 1 else 0)"

definition compareFormats :: "FormatInfo \<Rightarrow> FormatInfo \<Rightarrow> int" where
  "compareFormats a b =
     (if out_type a \<noteq> out_type b then (if out_type a = Video then - 1 else 1)
      else differenceSign (extractResolutionValue (out_resolution b))
             (extractResolutionValue (out_resolution a)))"

fun insertBy :: "('a \<Rightarrow> 'a \<Rightarrow> int) \<Rightarrow> 'a \<Rightarrow> 'a list \<Rightarrow> 'a list" where
  "insertBy cmp x [] = [x]"
| "insertBy cmp x (y # ys) = (if cmp x y \<le> 0 then x # y # ys else y # insertBy cmp x ys)"

definition sortBy :: "('a \<Rightarrow> 'a \<Rightarrow> int) \<Rightarrow> 'a list \<Rightarrow> 'a list" where
  \<comment> \<open>\<open>Array.prototype.sort\<close> with a comparator; the sort is stable\<close>
  "sortBy cmp xs = foldr (insertBy cmp) xs []"

definition normalizeResponse :: "(nat \<Rightarrow> string) \<Rightarrow> RawFormat list \<Rightarrow> FormatInfo list" where
  \<comment> \<open>the \<open>formats\<close> of the result, from \<open>info.formats || []\<close>\<close>
  "normalizeResponse formatFileSize rawFormats =
     sortBy compareFormats (fst (fold (loopBody formatFileSize) rawFormats ([], [])))"

text \<open>An example input.\<close>

definition raw :: "string \<Rightarrow> string \<Rightarrow> string \<Rightarrow> string \<Rightarrow> nat option \<Rightarrow> nat option \<Rightarrow> RawFormat" where
  "raw i e vc ac h fs =
     \<lparr>format_id = Some i, ext = Some e, protocol = Some ''https'', vcodec = Some vc,
      acodec = Some ac, height = h, width = None, resolution = None, filesize = fs,
      filesize_approx = None\<rparr>"

text \<open>The triple that \<open>findIndex\<close> compares, and the invariant of the loop.\<close>

definition sameTriple :: "FormatInfo \<Rightarrow> (FormatType \<times> container \<times> string)" where
  "sameTriple f = (out_type f, out_ext f, out_resolution f)"

definition loopInv :: "(nat \<Rightarrow> string) \<Rightarrow> RawFormat list \<Rightarrow> FormatInfo list \<times> string list \<Rightarrow> bool" where
  "loopInv formatFileSize seen_raw st \<longleftrightarrow>
     distinct (map sameTriple (fst st))
     \<and> (\<forall>f \<in> set (fst st). formatKey f \<in> set (snd st))
     \<and> (\<forall>r \<in> set seen_raw. \<not> skipped r \<longrightarrow> formatKey (processFormat formatFileSize r) \<in> set (snd st))
     \<and> (\<forall>f \<in> set (fst st). out_filesize f = ''unknown'' \<longrightarrow>
           (\<forall>r \<in> set seen_raw. \<not> skipped r \<and> sameTriple (processFormat formatFileSize r) = sameTriple f
              \<longrightarrow> out_filesize (processFormat formatFileSize r) = ''unknown''))"

definition sampleFormats :: "RawFormat list" where
  "sampleFormats =
     [raw ''140'' ''m4a'' ''none'' ''mp4a'' None (Some 100),
      raw ''18'' ''mp4'' ''avc1'' ''mp4a'' (Some 360) None,
      raw ''22'' ''mp4'' ''avc1'' ''mp4a'' (Some 720) None,
      raw ''18b'' ''mp4'' ''avc1'' ''none'' (Some 360) (Some 5000),
      raw ''hls'' ''m3u8'' ''avc1'' ''none'' (Some 1080) (Some 5000)]"

definition mixedResolutions :: "RawFormat list" where
  \<comment> \<open>a video of 480 lines that has no resolution string and no width, and a video of
      360 lines that is 640 wide\<close>
  "mixedResolutions =
     [raw ''hd'' ''mp4'' ''avc1'' ''mp4a'' (Some 480) None,
      (raw ''sd'' ''mp4'' ''avc1'' ''mp4a'' (Some 360) None)
        \<lparr>width := Some 640, resolution := Some ''640x360''\<rparr>]"

definition bytesOnly :: "nat \<Rightarrow> string" where
  "bytesOnly n = decimal n @ '' B''"

section \<open>Shapes of sanitised names\<close>

text \<open>
  What \<open>clean_name\<close> produces: characters of \<open>[A-Za-z0-9_.-]\<close> only, no two underscores
  in a row, and no underscore at either end.
\<close>

definition plain_char :: "nat \<Rightarrow> bool" where
  \<comment> \<open>what a sanitised name is made of: \<open>[A-Za-z0-9_.-]\<close>\<close>
  "plain_char c \<longleftrightarrow> is_word c \<or> c = 46 \<or> c = 45"

definition alnum :: "nat \<Rightarrow> bool" where
  "alnum c \<longleftrightarrow> (48 \<le> c \<and> c \<le> 57) \<or> (65 \<le> c \<and> c \<le> 90) \<or> (97 \<le> c \<and> c \<le> 122)"

fun single_us :: "nat list \<Rightarrow> bool" where
  "single_us [] = True"
| "single_us [c] = True"
| "single_us (a # b # cs) = (\<not> (a = 95 \<and> b = 95) \<and> single_us (b # cs))"

definition tidy :: "nat list \<Rightarrow> bool" where
  "tidy t \<longleftrightarrow> (\<forall>c \<in> set t. plain_char c) \<and> single_us t
     \<and> (t \<noteq> [] \<longrightarrow> hd t \<noteq> 95 \<and> last t \<noteq> 95)"

section \<open>Verification\<close>

subsection \<open>Rounding to a double\<close>

lemma bits_bounds: "0 < n \<Longrightarrow> 2 ^ (bits n - 1) \<le> n \<and> n < 2 ^ bits n"
proof (induction n rule: bits.induct)
  case (1 n)
  show ?case
  proof (cases "n div 2 = 0")
    case True
    with 1 have "n = 1" by (simp add: div_eq_0_iff)
    then show ?thesis by (simp add: bits.simps[of "Suc 0"] bits.simps[of 0])
  next
    case False
    with 1 have ih: "2 ^ (bits (n div 2) - 1) \<le> n div 2" "n div 2 < 2 ^ bits (n div 2)"
      by simp_all
    have b: "bits n = Suc (bits (n div 2))" using 1 by (simp add: bits.simps[of n])
    have pos: "0 < bits (n div 2)" using False by (simp add: bits.simps[of "n div 2"])
    then have e: "(2::nat) ^ bits (n div 2) = 2 * 2 ^ (bits (n div 2) - 1)"
      by (cases "bits (n div 2)") simp_all
    from ih(1) have "2 * 2 ^ (bits (n div 2) - 1) \<le> n" by linarith
    moreover from ih(2) have "n < 2 * 2 ^ bits (n div 2)" by linarith
    ultimately show ?thesis using b e by simp
  qed
qed

lemma bits_eqI: "2 ^ k \<le> n \<Longrightarrow> n < 2 ^ Suc k \<Longrightarrow> bits n = Suc k"
proof -
  assume a: "2 ^ k \<le> n" "n < 2 ^ Suc k"
  then have "0 < n" by (cases n) auto
  from bits_bounds[OF this] have b: "2 ^ (bits n - 1) \<le> n" "n < 2 ^ bits n" by simp_all
  from a(1) b(2) have "(2::nat) ^ k < 2 ^ bits n" by linarith
  then have 1: "k < bits n" by (simp add: power_strict_increasing_iff)
  from a(2) b(1) have "(2::nat) ^ (bits n - 1) < 2 ^ Suc k" by linarith
  then have 2: "bits n - 1 < Suc k"
    by (simp only: power_strict_increasing_iff one_less_numeral_iff semiring_norm)
  from 1 2 show ?thesis by linarith
qed


lemma roundHalfEven_exact [simp]: "roundHalfEven n 1 = n" "roundHalfEven n (Suc 0) = n"
  by (simp_all add: roundHalfEven_def)

lemma toDouble_snd_pos [simp]: "0 < snd (toDouble n d)"
  by (simp add: toDouble_def Let_def)



text \<open>Integers below \<open>2\<^sup>5\<^sup>3\<close> are doubles.\<close>

lemma numberValue_exact: "n < 2 ^ 53 \<Longrightarrow> numberValue n = enat n"
proof (cases "n = 0")
  case True
  then show ?thesis by (simp add: numberValue_def toDouble_def)
next
  case False
  assume lt: "n < 2 ^ 53"
  from False have np: "0 < n" by simp
  from bits_bounds[OF np] have bn: "2 ^ (bits n - 1) \<le> n" "n < 2 ^ bits n" by simp_all
  have b1: "bits (Suc 0) = 1" using bits_eqI[of 0 1] by simp
  have pos: "0 < bits n" using np by (simp add: bits.simps[of n])
  have le: "bits n \<le> 53"
  proof -
    from bn(1) lt have "(2::nat) ^ (bits n - 1) < 2 ^ 53" by linarith
    then have "bits n - 1 < 53"
      by (simp only: power_strict_increasing_iff one_less_numeral_iff semiring_norm)
    then show ?thesis by simp
  qed
  have big: "2 ^ 53 * (1 * 2 ^ (bits n - (53 + bits 1))) \<le> n * 2 ^ (53 + bits 1 - bits n)"
  proof -
    have "(2::nat) ^ 53 = 2 ^ (bits n - 1) * 2 ^ (54 - bits n)"
      using pos le by (simp add: power_add[symmetric])
    also have "\<dots> \<le> n * 2 ^ (54 - bits n)" using bn(1) by simp
    finally show ?thesis using le by (simp add: b1)
  qed
  have up: "53 + bits 1 - bits n \<noteq> 0" using le by (simp add: b1)
  have "toDouble n 1 = (n * 2 ^ (53 - bits n), 2 ^ (53 - bits n))"
    using False big up le unfolding toDouble_def Let_def
    by (simp add: b1)
  then show ?thesis using lt
    by (simp add: numberValue_def Let_def)
qed

text \<open>
  Values used below. \<open>23 / 40 * 100\<close> is \<open>57.49999999999999\<close> in doubles, and rounds to 57
  where the exact ratio would round to 58. \<open>2\<^sup>5\<^sup>3 + 1\<close> is not a double.
\<close>

lemma bits_values:
  "bits 23 = 5" "bits 40 = 6" "bits 2048 = 12" "bits 1024 = 11" "bits 65536 = 17"
  "bits 131072 = 18" "bits 1 = 1" "bits (Suc 0) = 1"
  "bits 517913957147607000 = 59" "bits 9007199254740992 = 54"
  "bits 450359962737049600 = 59" "bits 2251799813685248 = 52"
  "bits 9007199254740993 = 54"
  using bits_eqI[of 4 23] bits_eqI[of 5 40] bits_eqI[of 11 2048] bits_eqI[of 10 1024]
    bits_eqI[of 16 65536] bits_eqI[of 17 131072] bits_eqI[of 0 1]
    bits_eqI[of 58 517913957147607000] bits_eqI[of 53 9007199254740992]
    bits_eqI[of 58 450359962737049600] bits_eqI[of 51 2251799813685248]
    bits_eqI[of 53 9007199254740993]
  by simp_all




lemma numberValue_rounds: "numberValue 9007199254740993 = 9007199254740992"
proof -
  have "toDouble 9007199254740993 (Suc 0) = (9007199254740992, 1)"
    by (simp add: toDouble_def Let_def bits_values roundHalfEven_def)
  then show ?thesis by (simp add: numberValue_def Let_def numeral_eq_enat)
qed

subsection \<open>The single-active-job invariant\<close>

lemma modifyJob_fields [simp]:
  "queue (modifyJob k f s) = queue s"
  "activeJob (modifyJob k f s) = activeJob s"
  "sessions (modifyJob k f s) = sessions s"
  "published (modifyJob k f s) = published s"
  "drainLog (modifyJob k f s) = drainLog s"
  "map fst (jobs (modifyJob k f s)) = map fst (jobs s)"
  by (auto simp: modifyJob_def)

lemma processQueue_fields [simp]:
  "jobs (processQueue s) = jobs s"
  "activeJob (processQueue s) = activeJob s"
  "sessions (processQueue s) = sessions s"
  "published (processQueue s) = published s"
proof (induction s rule: processQueue.induct)
  case (1 s)
  { case 1 show ?case using "1.IH"(1) by (subst processQueue.simps) (auto simp: getJob_def split: option.splits) }
  { case 2 show ?case using "1.IH"(2) by (subst processQueue.simps) (auto simp: getJob_def split: option.splits) }
  { case 3 show ?case using "1.IH"(3) by (subst processQueue.simps) (auto simp: getJob_def split: option.splits) }
  { case 4 show ?case using "1.IH"(4) by (subst processQueue.simps) (auto simp: getJob_def split: option.splits) }
qed


lemma inv_cong: "jobs s' = jobs s \<Longrightarrow> activeJob s' = activeJob s \<Longrightarrow> queueInv s \<Longrightarrow> queueInv s'"
  by (simp add: queueInv_def wellKeyed_def singleActive_def)

lemma inv_processQueue [simp]: "queueInv (processQueue s) = queueInv s"
  by (simp add: queueInv_def wellKeyed_def singleActive_def)

lemma inv_modifyJob:
  assumes "queueInv s" "\<And>j. job_id (f j) = job_id j" "\<And>j. active (f j) \<Longrightarrow> active j"
  shows "queueInv (modifyJob k f s)"
proof -
  have "set (jobs (modifyJob k f s)) \<subseteq> set (jobs s) \<union> {(k, f j) | j. (k, j) \<in> set (jobs s)}"
    by (auto simp: modifyJob_def split: if_splits)
  then have *: "\<And>k' j'. (k', j') \<in> set (jobs (modifyJob k f s)) \<Longrightarrow>
      (k', j') \<in> set (jobs s) \<or> (\<exists>j. j' = f j \<and> (k', j) \<in> set (jobs s))"
    by auto
  show ?thesis
    using assms unfolding queueInv_def wellKeyed_def singleActive_def
    by (fastforce dest!: *)
qed

lemma inv_finishJob:
  assumes "queueInv s" "\<And>j. getJob s jobId = Some j \<Longrightarrow> \<not> active j"
  shows "queueInv (finishJob jobId s)"
  using assms unfolding finishJob_def
  by (auto simp: queueInv_def wellKeyed_def singleActive_def getJob_def)


lemma fold_preserves:
  assumes "\<And>x s. P s \<Longrightarrow> P (f x s)" "P s"
  shows "P (fold f xs s)"
  using assms(2) by (induction xs arbitrary: s) (auto intro: assms(1))

lemma failDependentJob_fields [simp]:
  "activeJob (failDependentJob now d err k s) = activeJob s"
  "sessions (failDependentJob now d err k s) = sessions s"
  "published (failDependentJob now d err k s) = published s"
  "drainLog (failDependentJob now d err k s) = drainLog s"
  "map fst (jobs (failDependentJob now d err k s)) = map fst (jobs s)"
  by (auto simp: failDependentJob_def split: option.splits)

lemma inv_queue_update [simp]: "queueInv (s\<lparr>queue := q\<rparr>) = queueInv s"
  by (simp add: queueInv_def wellKeyed_def singleActive_def)

lemma inv_failDependentJob: "queueInv s \<Longrightarrow> queueInv (failDependentJob now d err k s)"
  by (auto simp: failDependentJob_def active_def intro!: inv_modifyJob split: option.splits)

lemma inv_failDependentJobs: "queueInv s \<Longrightarrow> queueInv (failDependentJobs now d err s)"
  unfolding failDependentJobs_def by (rule fold_preserves) (auto intro: inv_failDependentJob)

lemma failDependentJobs_fields [simp]:
  "activeJob (failDependentJobs now d err s) = activeJob s"
  "sessions (failDependentJobs now d err s) = sessions s"
  "published (failDependentJobs now d err s) = published s"
  "drainLog (failDependentJobs now d err s) = drainLog s"
  "map fst (jobs (failDependentJobs now d err s)) = map fst (jobs s)"
  unfolding failDependentJobs_def
  by (rule fold_preserves[where P="\<lambda>t. activeJob t = activeJob s"], simp, simp)
     (rule fold_preserves[where P="\<lambda>t. sessions t = sessions s"], simp, simp,
      rule fold_preserves[where P="\<lambda>t. published t = published s"], simp, simp,
      rule fold_preserves[where P="\<lambda>t. drainLog t = drainLog s"], simp, simp,
      rule fold_preserves[where P="\<lambda>t. map fst (jobs t) = map fst (jobs s)"], simp, simp)


lemma getJob_modifyJob:
  "getJob (modifyJob k f s) k' = (if k' = k then map_option f (getJob s k) else getJob s k')"
proof -
  have "map_of (map (\<lambda>(k', j). if k' = k then (k', f j) else (k', j)) xs) k' =
        (if k' = k then map_option f (map_of xs k) else map_of xs k')" for xs
    by (induction xs) auto
  then show ?thesis by (simp add: getJob_def modifyJob_def)
qed

lemma getJob_queue_update [simp]: "getJob (s\<lparr>queue := q\<rparr>) k = getJob s k"
  by (simp add: getJob_def)

lemma getJob_processQueue [simp]: "getJob (processQueue s) k = getJob s k"
  by (simp add: getJob_def)

lemma inactive_failDependentJob:
  assumes "\<And>j. getJob s k = Some j \<Longrightarrow> \<not> active j"
  shows "getJob (failDependentJob now d err k' s) k = Some j \<Longrightarrow> \<not> active j"
  using assms
  by (auto simp: failDependentJob_def getJob_modifyJob active_def split: option.splits if_splits)

lemma inactive_failDependentJobs:
  assumes "\<And>j. getJob s k = Some j \<Longrightarrow> \<not> active j"
  shows "getJob (failDependentJobs now d err s) k = Some j \<Longrightarrow> \<not> active j"
proof -
  have "\<forall>j. getJob (fold (failDependentJob now d err) ks s) k = Some j \<longrightarrow> \<not> active j" for ks
  proof (rule fold_preserves[where P="\<lambda>t. \<forall>j. getJob t k = Some j \<longrightarrow> \<not> active j"])
    show "\<forall>j. getJob s k = Some j \<longrightarrow> \<not> active j" using assms by blast
  next
    fix x t assume "\<forall>j. getJob t k = Some j \<longrightarrow> \<not> active j"
    then show "\<forall>j. getJob (failDependentJob now d err x t) k = Some j \<longrightarrow> \<not> active j"
      using inactive_failDependentJob[of t k now d err x] by blast
  qed
  then show "getJob (failDependentJobs now d err s) k = Some j \<Longrightarrow> \<not> active j"
    by (simp add: failDependentJobs_def)
qed

lemma find_job_in_jobs:
  "find P (jobs s) = Some (k, job) \<Longrightarrow> (k, job) \<in> set (jobs s)"
  by (auto simp: find_Some_iff)

lemma inv_onProgress: "queueInv s \<Longrightarrow> queueInv (onProgress now p s)"
proof (cases "find (\<lambda>(k, j). job_downloadId j = Some (downloadId p)) (jobs s)")
  case None
  then show "queueInv s \<Longrightarrow> ?thesis" by (simp add: onProgress_def)
next
  case (Some kj)
  obtain k job where kj: "kj = (k, job)" by (cases kj)
  assume i: "queueInv s"
  from Some kj have mem: "(k, job) \<in> set (jobs s)" by (auto dest: find_job_in_jobs)
  with i have id: "job_id job = k" by (auto simp: queueInv_def wellKeyed_def)
  let ?s1 = "modifyJob k (\<lambda>j. j\<lparr>job_progress := Some (bytesDownloaded p, totalBytes p, percentage p)\<rparr>) s"
  have i1: "queueInv ?s1" using i by (auto intro!: inv_modifyJob simp: active_def)
  let ?c = "modifyJob k (\<lambda>j. j\<lparr>job_status := Completed, completedAt := Some now\<rparr>) ?s1"
  have ic: "queueInv (finishJob k ?c)"
    by (rule inv_finishJob) (auto intro!: inv_modifyJob i1 simp: active_def getJob_modifyJob)
  let ?f = "modifyJob k (\<lambda>j. j\<lparr>job_status := Failed, job_error := error p, completedAt := Some now\<rparr>) ?s1"
  have f: "queueInv ?f" by (auto intro!: inv_modifyJob i1 simp: active_def)
  have if1: "queueInv (finishJob k ?f)"
    by (rule inv_finishJob) (auto intro!: f simp: active_def getJob_modifyJob)
  have if2: "queueInv (finishJob k (failDependentJobs now k e ?f))" for e
  proof (rule inv_finishJob)
    show "queueInv (failDependentJobs now k e ?f)" by (rule inv_failDependentJobs) (rule f)
  next
    fix j assume "getJob (failDependentJobs now k e ?f) k = Some j"
    moreover have "\<And>j. getJob ?f k = Some j \<Longrightarrow> \<not> active j"
      by (auto simp: active_def getJob_modifyJob)
    ultimately show "\<not> active j" by (rule inactive_failDependentJobs[rotated])
  qed
  show ?thesis
    using Some kj id i1 ic if1 if2
    by (simp add: onProgress_def Let_def notifyDependentJobs_def)
qed

lemma inv_published_update [simp]: "queueInv (s\<lparr>published := q\<rparr>) = queueInv s"
  by (simp add: queueInv_def wellKeyed_def singleActive_def)

lemma inv_sessions_update [simp]: "queueInv (s\<lparr>sessions := q\<rparr>) = queueInv s"
  by (simp add: queueInv_def wellKeyed_def singleActive_def)

lemma inv_emit: "queueInv s \<Longrightarrow> queueInv (emit now p s)"
  by (simp add: emit_def inv_onProgress)

lemma inv_progress_ops:
  "queueInv s \<Longrightarrow> queueInv (snd (createSession now u f dl gen s))"
  "queueInv s \<Longrightarrow> queueInv (updateProgress now i bytes tot s)"
  "queueInv s \<Longrightarrow> queueInv (markCompleted now i s)"
  "queueInv s \<Longrightarrow> queueInv (markError now i err s)"
  "queueInv s \<Longrightarrow> queueInv (snd (cancelDownload now i s))"
  "queueInv s \<Longrightarrow> queueInv (sessionExpired i s)"
  "queueInv s \<Longrightarrow> queueInv (cleanupSessions now s)"
  by (auto simp: createSession_def updateProgress_def markCompleted_def markError_def
      cancelDownload_def sessionExpired_def cleanupSessions_def Let_def
      intro!: inv_emit split: option.splits)



lemma inv_alt:
  "queueInv s \<longleftrightarrow> distinct (map fst (jobs s)) \<and>
     (\<forall>k j. (k, j) \<in> set (jobs s) \<longrightarrow> job_id j = k \<and> (active j \<longrightarrow> activeJob s = Some k))"
  by (auto simp: queueInv_def wellKeyed_def singleActive_def)

lemma in_jobs_modifyJob:
  "(k', j') \<in> set (jobs (modifyJob k f s)) \<longleftrightarrow>
     (k' \<noteq> k \<and> (k', j') \<in> set (jobs s)) \<or> (k' = k \<and> (\<exists>j. j' = f j \<and> (k, j) \<in> set (jobs s)))"
proof -
  have "(k', j') \<in> set (map (\<lambda>(k', j). if k' = k then (k', f j) else (k', j)) xs) \<longleftrightarrow>
     (k' \<noteq> k \<and> (k', j') \<in> set xs) \<or> (k' = k \<and> (\<exists>j. j' = f j \<and> (k, j) \<in> set xs))" for xs
    by (induction xs) (auto split: if_splits)
  then show ?thesis by (simp add: modifyJob_def)
qed

lemma inv_add_job:
  assumes "queueInv s" "getJob s i = None" "job_id job = i" "\<not> active job"
  shows "queueInv (s\<lparr>jobs := jobs s @ [(i, job)]\<rparr>)"
proof -
  from assms(2) have "i \<notin> fst ` set (jobs s)"
    by (simp add: getJob_def map_of_eq_None_iff)
  with assms show ?thesis
    by (auto simp: inv_alt)
qed

lemma newJob_fields [simp]:
  "job_id (newJob i t u now) = i" "\<not> active (newJob i t u now)"
  by (simp_all add: newJob_def active_def)

lemma active_update [simp]:
  "active (j\<lparr>job_formatId := a\<rparr>) = active j"
  "active (j\<lparr>targetFormat := b\<rparr>) = active j"
  "active (j\<lparr>inputFile := c\<rparr>) = active j"
  "active (j\<lparr>dependsOn := d\<rparr>) = active j"
  "active (j\<lparr>job_downloadId := e\<rparr>) = active j"
  "active (j\<lparr>job_progress := f\<rparr>) = active j"
  "active (j\<lparr>job_error := g\<rparr>) = active j"
  "active (j\<lparr>completedAt := h\<rparr>) = active j"
  "active (j\<lparr>startedAt := h\<rparr>) = active j"
  "\<not> active (j\<lparr>job_status := Completed\<rparr>)"
  "\<not> active (j\<lparr>job_status := Failed\<rparr>)"
  by (simp_all add: active_def)

lemma inv_addDownloadJob: "queueInv s \<Longrightarrow> queueInv (snd (addDownloadJob now u f jobIdOpt gen s))"
  unfolding addDownloadJob_def Let_def
  by (simp add: inv_add_job split: option.splits)

lemma inv_addConvertJob:
  "queueInv s \<Longrightarrow> addConvertJob now u fmt dep inp jobIdOpt gen s = Inr r \<Longrightarrow> queueInv (snd r)"
  unfolding addConvertJob_def Let_def
  by (auto simp: inv_add_job split: option.splits if_splits)

lemma inv_start:
  assumes "queueInv s" "activeJob s = None" "\<And>j. job_id (f j) = job_id j"
  shows "queueInv (modifyJob jobId f (s\<lparr>queue := q, activeJob := Some jobId\<rparr>))"
proof -
  from assms(1,2) have none: "\<And>k j. (k, j) \<in> set (jobs s) \<Longrightarrow> \<not> active j"
    by (auto simp: inv_alt)
  show ?thesis
    unfolding inv_alt using assms(1,3) none
    by (auto simp: in_jobs_modifyJob inv_alt)
qed

lemma inv_startJob: "queueInv s \<Longrightarrow> queueInv (snd (startJob now jobId dlId s))"
  unfolding startJob_def
  by (simp add: inv_start split: option.splits)

lemma inv_completeJob: "queueInv s \<Longrightarrow> queueInv (completeJob now jobId s)"
  unfolding completeJob_def Let_def notifyDependentJobs_def
  by (auto split: option.splits intro!: inv_finishJob inv_modifyJob simp: getJob_modifyJob)

lemma inv_failJob: "queueInv s \<Longrightarrow> queueInv (failJob now jobId err s)"
  unfolding failJob_def Let_def
  by (auto split: option.splits intro!: inv_finishJob inv_modifyJob inv_failDependentJobs
      elim!: inactive_failDependentJobs[rotated] simp: getJob_modifyJob)


lemma onProgress_cancelled_activeJob:
  "status p = PCancelled \<Longrightarrow> activeJob (onProgress now p s) = activeJob s"
  by (simp add: onProgress_def Let_def split: option.splits prod.splits)

lemma cancelDownload_activeJob [simp]:
  "activeJob (snd (cancelDownload now i s)) = activeJob s"
  by (simp add: cancelDownload_def emit_def Let_def onProgress_cancelled_activeJob
      split: option.splits)

lemma inv_clear:
  assumes "queueInv t" "activeJob t = Some jobId" "\<And>j. job_id (f j) = job_id j" "\<And>j. \<not> active (f j)"
  shows "queueInv (modifyJob jobId f (t\<lparr>activeJob := None\<rparr>))"
  unfolding inv_alt using assms
  by (auto simp: in_jobs_modifyJob inv_alt)

lemma inv_cancelJob: "queueInv s \<Longrightarrow> queueInv (snd (cancelJob now jobId s))"
proof (cases "getJob s jobId")
  case None
  then show "queueInv s \<Longrightarrow> ?thesis" by (simp add: cancelJob_def)
next
  case (Some job)
  assume i: "queueInv s"
  let ?s1 = "s\<lparr>queue := remove1 jobId (queue s)\<rparr>"
  let ?f = "\<lambda>j. j\<lparr>job_status := Failed, job_error := Some ''Cancelled by user'',
                   completedAt := Some now\<rparr>"
  have i1: "queueInv ?s1" using i by simp
  show ?thesis
  proof (cases "activeJob s = Some jobId")
    case True
    have "queueInv (modifyJob jobId ?f (t\<lparr>activeJob := None\<rparr>))"
      if "queueInv t" "activeJob t = Some jobId" for t
      using that by (intro inv_clear) simp_all
    from this[of ?s1] this[of "snd (cancelDownload now (template (job_downloadId job)) ?s1)"]
    show ?thesis
      using Some True i1 by (simp add: cancelJob_def Let_def inv_progress_ops)
  next
    case False
    have "queueInv (modifyJob jobId ?f ?s1)" using i1 by (intro inv_modifyJob) simp_all
    then show ?thesis using Some False by (simp add: cancelJob_def Let_def)
  qed
qed

lemma inv_setConvertJobInputFile: "queueInv s \<Longrightarrow> queueInv (snd (setConvertJobInputFile jobId f s))"
  by (auto simp: setConvertJobInputFile_def intro!: inv_modifyJob split: option.splits)

lemma inv_setJobDownloadId: "queueInv s \<Longrightarrow> queueInv (setJobDownloadId jobId dlId s)"
  by (auto simp: setJobDownloadId_def intro!: inv_modifyJob)

lemma inv_cleanupOldJobs: "queueInv s \<Longrightarrow> queueInv (cleanupOldJobs now maxAge s)"
  by (auto simp: inv_alt cleanupOldJobs_def distinct_map_filter)

lemma inv_exec: "queueInv s \<Longrightarrow> queueInv (exec c s)"
  by (cases c)
     (auto simp: inv_addDownloadJob inv_startJob inv_completeJob inv_failJob inv_cancelJob
        inv_onProgress inv_setConvertJobInputFile inv_setJobDownloadId inv_cleanupOldJobs
        inv_progress_ops dest: inv_addConvertJob split: sum.splits)

lemma inv_initial: "queueInv initial"
  by (simp add: inv_alt initial_def)

lemma inv_run: "queueInv s \<Longrightarrow> queueInv (run calls s)"
  unfolding run_def by (rule fold_preserves) (auto intro: inv_exec)

lemma at_most_one_key:
  "distinct (map fst xs) \<Longrightarrow> length (filter (\<lambda>(k, j). k = a) xs) \<le> 1"
proof (induction xs)
  case Nil
  then show ?case by simp
next
  case (Cons x xs)
  obtain k j where x: "x = (k, j)" by (cases x)
  show ?case
  proof (cases "k = a")
    case True
    with Cons.prems x have "a \<notin> fst ` set xs" by auto
    then have "filter (\<lambda>(k, j). k = a) xs = []" by (force simp: filter_empty_conv)
    with True x show ?thesis by simp
  next
    case False
    with Cons x show ?thesis by simp
  qed
qed

lemma inv_at_most_one:
  assumes "queueInv s"
  shows "length (activeJobs s) \<le> 1"
proof (cases "activeJob s")
  case None
  with assms have "filter active (map snd (jobs s)) = []"
    by (auto simp: inv_alt filter_empty_conv)
  then show ?thesis by (simp add: activeJobs_def)
next
  case (Some a)
  have "length (filter active (map snd (jobs s))) = length (filter (\<lambda>(k, j). active j) (jobs s))"
    by (simp add: filter_map comp_def case_prod_beta cong: filter_cong)
  also have "\<dots> = length (filter (\<lambda>(k, j). active j) (filter (\<lambda>(k, j). k = a) (jobs s)))"
    using assms Some
    by (auto simp: inv_alt intro!: arg_cong[where f=length] filter_cong)
  also have "\<dots> \<le> length (filter (\<lambda>(k, j). k = a) (jobs s))" by (rule length_filter_le)
  also have "\<dots> \<le> 1" using assms by (intro at_most_one_key) (simp add: inv_alt)
  finally show ?thesis by (simp add: activeJobs_def)
qed

text \<open>
  Claim C1. In every state the two services reach from the initial state, by any sequence
  of calls of the queue, of the progress bus and of the queue's listener, every job whose
  status is \<open>downloading\<close> or \<open>converting\<close> has the id held in \<open>activeJob\<close>, and
  there is at most one such job.
\<close>

theorem single_active_job_invariant:
  "(\<forall>j \<in> set (activeJobs (run calls initial)). activeJob (run calls initial) = Some (job_id j))
   \<and> length (activeJobs (run calls initial)) \<le> 1"
proof -
  have i: "queueInv (run calls initial)" by (rule inv_run) (rule inv_initial)
  then have "\<forall>j \<in> set (activeJobs (run calls initial)). activeJob (run calls initial) = Some (job_id j)"
    by (fastforce simp: inv_alt activeJobs_def)
  with inv_at_most_one[OF i] show ?thesis by simp
qed



subsection \<open>Evaluating the sanitiser on long names\<close>

lemma replace_runs_replicate:
  "\<not> P c \<Longrightarrow> replace_runs P (replicate n c @ xs) = replicate n c @ replace_runs P xs"
  by (induction n) auto

lemma dropWhile_replicate_keep:
  "\<not> P c \<Longrightarrow> 0 < n \<Longrightarrow> dropWhile P (replicate n c @ xs) = replicate n c @ xs"
  by (cases n) auto

lemma char_classes:
  "keep_char 97" "\<not> is_space 97" "\<not> is_underscore 97"
  "keep_char 95" "\<not> is_space 95" "is_underscore 95"
  "keep_char 98" "\<not> is_space 98" "\<not> is_underscore 98"
  "keep_char 46" "\<not> is_space 46" "\<not> is_underscore 46"
  "keep_char 109" "\<not> is_space 109" "\<not> is_underscore 109"
  "keep_char 112" "\<not> is_space 112" "\<not> is_underscore 112"
  "keep_char 52" "\<not> is_space 52" "\<not> is_underscore 52"
  by (simp_all add: keep_char_def is_word_def is_space_def is_underscore_def)

lemma clean_name_cut_input:
  "clean_name (replicate 99 97 @ [95, 98]) = replicate 99 97 @ [95, 98]"
  by (simp add: clean_name_def strip_ends_def replace_runs_replicate
      dropWhile_replicate_keep char_classes)

lemma clean_name_cut_output:
  "clean_name (replicate 99 97 @ [95]) = replicate 99 97"
  by (simp add: clean_name_def strip_ends_def replace_runs_replicate
      dropWhile_replicate_keep char_classes)

lemma clean_name_long_title:
  "clean_name (replicate 100 97 @ [46, 109, 112, 52]) = replicate 100 97 @ [46, 109, 112, 52]"
  by (simp add: clean_name_def strip_ends_def replace_runs_replicate
      dropWhile_replicate_keep char_classes)

lemma trim_a_run:
  "strip_ends is_space (replicate n 97) = replicate n 97"
  "strip_ends is_space (replicate 99 97 @ [95]) = replicate 99 97 @ [95]"
  by (simp_all add: strip_ends_def dropWhile_replicate_keep char_classes)

lemma safeFilename_cut_input:
  "safeFilename (replicate 99 97 @ [95, 98]) = replicate 99 97 @ [95]"
proof -
  have "take 100 (replicate 99 97 @ [95, 98::nat]) = replicate 99 97 @ [95]" by simp
  then show ?thesis
    unfolding safeFilename_def clean_name_cut_input by (simp add: trim_a_run)
qed

lemma safeFilename_cut_output:
  "safeFilename (replicate 99 97 @ [95]) = replicate 99 97"
proof -
  have "take 100 (replicate 99 (97::nat)) = replicate 99 97" by simp
  then show ?thesis
    unfolding safeFilename_def clean_name_cut_output by (simp add: trim_a_run)
qed

lemma safeFilename_long_title:
  "safeFilename (replicate 100 97 @ [46, 109, 112, 52]) = replicate 100 97"
proof -
  have "take 100 (replicate 100 97 @ [46, 109, 112, 52::nat]) = replicate 100 97" by simp
  then show ?thesis
    unfolding safeFilename_def clean_name_long_title by (simp add: trim_a_run)
qed

text \<open>
  Claim C10. The claim: \<open>safeFilename\<close> applied twice equals \<open>safeFilename\<close> applied once,
  and an alphanumeric extension at the end of the input is at the end of the output. The
  source removes the trailing underscores and then cuts the name at 100 characters, and the
  route handler passes the name with its extension and says in a comment that the
  extension will be kept. On \<open>a\<^sup>9\<^sup>9_b\<close> the cut leaves a trailing underscore, which a
  second application removes; on \<open>a\<^sup>1\<^sup>0\<^sup>0.mp4\<close> the cut removes the extension.
\<close>

theorem safeFilename_cut_breaks_idempotence_and_extension:
  "safeFilename (js (replicate 99 CHR ''a'' @ ''_b'')) = js (replicate 99 CHR ''a'' @ ''_'')
   \<and> safeFilename (safeFilename (js (replicate 99 CHR ''a'' @ ''_b''))) = js (replicate 99 CHR ''a'')
   \<and> safeFilename (js (replicate 100 CHR ''a'' @ ''.mp4'')) = js (replicate 100 CHR ''a'')"
  by (simp add: js_def safeFilename_cut_input safeFilename_cut_output safeFilename_long_title)

subsection \<open>Evaluation of concrete runs\<close>

lemmas sys_defs = run_def initial_def addDownloadJob_def addConvertJob_def startJob_def
  completeJob_def failJob_def cancelJob_def finishJob_def failDependentJobs_def failDependentJob_def
  notifyDependentJobs_def onProgress_def emit_def createSession_def updateProgress_def
  markCompleted_def markError_def cancelDownload_def getJob_def modifyJob_def queueHead_def
  canJobStart_def truthy_def template_def newJob_def Let_def processQueue.simps

theorem single_active_job_invariant_witness:
  "map job_id (activeJobs (run [AddDownloadJob 0 ''u'' ''22'' (Some ''j1'') ''g1'',
         StartJob 1 ''j1'' ''j1''] initial)) = [''j1'']
   \<and> activeJob (run [AddDownloadJob 0 ''u'' ''22'' (Some ''j1'') ''g1'',
         StartJob 1 ''j1'' ''j1''] initial) = Some ''j1''"
  using single_active_job_invariant
    [of "[AddDownloadJob 0 ''u'' ''22'' (Some ''j1'') ''g1'', StartJob 1 ''j1'' ''j1'']"]
  by (simp add: sys_defs activeJobs_def active_def)

subsection \<open>Starting a job\<close>

lemma getJob_other_updates [simp]:
  "getJob (s\<lparr>activeJob := a\<rparr>) k = getJob s k"
  "getJob (s\<lparr>sessions := b\<rparr>) k = getJob s k"
  "getJob (s\<lparr>published := c\<rparr>) k = getJob s k"
  "getJob (s\<lparr>drainLog := d\<rparr>) k = getJob s k"
  by (simp_all add: getJob_def)

text \<open>
  Claim C2. \<open>startJob\<close> returns true exactly when no job is active, the job is on record
  and is the head of the queue, and its dependency, if it names one, is a job on record
  whose status is \<open>completed\<close> (an empty \<open>dependsOn\<close> names none). When it returns true,
  the head is popped, \<open>activeJob\<close> is the job, the job's status is \<open>downloading\<close> for a
  download job and \<open>converting\<close> for a convert job, \<open>startedAt\<close> and \<open>downloadId\<close> are
  set, and nothing else changes; when it returns false the state is unchanged.
\<close>

theorem startJob_contract:
  "(fst (startJob now jobId dlId s) \<longleftrightarrow>
      activeJob s = None \<and> queueHead s = Some jobId
      \<and> (\<exists>job. getJob s jobId = Some job
             \<and> (\<forall>d. dependsOn job = Some d \<and> d \<noteq> [] \<longrightarrow>
                    (\<exists>dependency. getJob s d = Some dependency
                       \<and> job_status dependency = Completed))))
   \<and> (fst (startJob now jobId dlId s) \<longrightarrow>
        (\<exists>job. getJob s jobId = Some job
           \<and> queue s = jobId # queue (snd (startJob now jobId dlId s))
           \<and> activeJob (snd (startJob now jobId dlId s)) = Some jobId
           \<and> getJob (snd (startJob now jobId dlId s)) jobId =
               Some (job\<lparr>job_status := (if job_type job = Download then Downloading else Converting),
                         startedAt := Some now, job_downloadId := Some dlId\<rparr>)
           \<and> (\<forall>k. k \<noteq> jobId \<longrightarrow> getJob (snd (startJob now jobId dlId s)) k = getJob s k)
           \<and> sessions (snd (startJob now jobId dlId s)) = sessions s
           \<and> published (snd (startJob now jobId dlId s)) = published s))
   \<and> (\<not> fst (startJob now jobId dlId s) \<longrightarrow> snd (startJob now jobId dlId s) = s)"
proof (cases "getJob s jobId")
  case None
  then show ?thesis by (simp add: startJob_def)
next
  case (Some job)
  have dep: "canJobStart s job \<longleftrightarrow>
      (\<forall>d. dependsOn job = Some d \<and> d \<noteq> [] \<longrightarrow>
         (\<exists>dependency. getJob s d = Some dependency \<and> job_status dependency = Completed))"
    by (cases "dependsOn job")
       (auto simp: canJobStart_def truthy_def template_def split: option.splits)
  show ?thesis
  proof (cases "activeJob s = None \<and> queueHead s = Some jobId \<and> canJobStart s job")
    case True
    then have q: "queue s = jobId # tl (queue s)"
      by (cases "queue s") (simp_all add: queueHead_def)
    from True have c: "canJobStart s job" by simp
    from True Some show ?thesis
      using q dep c by (simp add: startJob_def getJob_modifyJob)
  next
    case False
    with Some dep show ?thesis
      by (auto simp: startJob_def)
  qed
qed

lemma dependency_states:
  "started_dependency_completed =
     initial\<lparr>jobs := [(''j1'', (newJob ''j1'' Download ''u'' 0)\<lparr>job_formatId := Some ''22'',
                  job_status := Completed, startedAt := Some 2, job_downloadId := Some ''j1'',
                  completedAt := Some 3\<rparr>),
                (''j2'', (newJob ''j2'' Convert ''u'' 1)\<lparr>targetFormat := Some ''mp3'',
                  dependsOn := Some ''j1''\<rparr>)],
             queue := [''j2''], drainLog := [None, None]\<rparr>"
  "started_dependency_failed =
     initial\<lparr>jobs := [(''j1'', (newJob ''j1'' Download ''u'' 0)\<lparr>job_formatId := Some ''22'',
                  job_status := Failed, startedAt := Some 2, job_downloadId := Some ''j1'',
                  job_error := Some ''Cancelled by user'', completedAt := Some 3\<rparr>),
                (''j2'', (newJob ''j2'' Convert ''u'' 1)\<lparr>targetFormat := Some ''mp3'',
                  dependsOn := Some ''j1''\<rparr>)],
             queue := [''j2''], drainLog := [None, None]\<rparr>"
  by (simp_all add: started_dependency_completed_def started_dependency_failed_def sys_defs)

theorem startJob_contract_witness:
  "fst (startJob 4 ''j2'' ''d2'' started_dependency_completed)
   \<and> activeJob (snd (startJob 4 ''j2'' ''d2'' started_dependency_completed)) = Some ''j2''
   \<and> queue (snd (startJob 4 ''j2'' ''d2'' started_dependency_completed)) = []
   \<and> map_option job_status (getJob (snd (startJob 4 ''j2'' ''d2'' started_dependency_completed)) ''j2'')
       = Some Converting
   \<and> map_option job_status (getJob started_dependency_failed ''j1'') = Some Failed
   \<and> activeJob started_dependency_failed = None
   \<and> queueHead started_dependency_failed = Some ''j2''
   \<and> \<not> fst (startJob 4 ''j2'' ''d2'' started_dependency_failed)
   \<and> snd (startJob 4 ''j2'' ''d2'' started_dependency_failed) = started_dependency_failed"
  using startJob_contract[of 4 "''j2''" "''d2''" started_dependency_completed]
    startJob_contract[of 4 "''j2''" "''d2''" started_dependency_failed]
  unfolding dependency_states by (simp add: sys_defs)

subsection \<open>The drain routine after a terminal transition\<close>

lemma processQueue_drainLog:
  "\<exists>n. drainLog (processQueue s) = drainLog s @ replicate (Suc n) (activeJob s)"
proof (induction s rule: processQueue.induct)
  case (1 s)
  show ?case
  proof (cases "activeJob s \<noteq> None \<or> queue s = []")
    case True
    then have "drainLog (processQueue s) = drainLog s @ replicate (Suc 0) (activeJob s)"
      by (subst processQueue.simps) auto
    then show ?thesis by blast
  next
    case False
    show ?thesis
    proof (cases "getJob s (hd (queue s))")
      case None
      from "1.IH"[OF False None] obtain n where
        "drainLog (processQueue (s\<lparr>drainLog := drainLog s @ [activeJob s], queue := tl (queue s)\<rparr>))
         = (drainLog s @ [activeJob s]) @ replicate (Suc n) (activeJob s)"
        by auto
      then have "drainLog (processQueue s) = drainLog s @ replicate (Suc (Suc n)) (activeJob s)"
        using False None by (subst processQueue.simps) simp
      then show ?thesis by blast
    next
      case (Some j)
      then have "drainLog (processQueue s) = drainLog s @ replicate (Suc 0) (activeJob s)"
        using False by (subst processQueue.simps) auto
      then show ?thesis by blast
    qed
  qed
qed

lemma finishJob_drain:
  "\<exists>n. drainLog (finishJob jobId s) =
         drainLog s @ replicate (Suc n) (if activeJob s = Some jobId then None else activeJob s)
       \<and> activeJob (finishJob jobId s) = (if activeJob s = Some jobId then None else activeJob s)"
  using processQueue_drainLog[of "s\<lparr>activeJob := None\<rparr>"] processQueue_drainLog[of s]
  by (auto simp: finishJob_def)

lemma onProgress_cancelled_drainLog:
  "status p = PCancelled \<Longrightarrow> drainLog (onProgress now p s) = drainLog s"
  by (simp add: onProgress_def Let_def split: option.splits prod.splits)

lemma cancelDownload_drainLog [simp]:
  "drainLog (snd (cancelDownload now i s)) = drainLog s"
  by (simp add: cancelDownload_def emit_def Let_def onProgress_cancelled_drainLog
      split: option.splits)

lemma finishJob_drain_from:
  assumes "drainLog t = drainLog s" "activeJob t = activeJob s"
  shows "\<exists>n. drainLog (finishJob jobId t) =
         drainLog s @ replicate (Suc n) (if activeJob s = Some jobId then None else activeJob s)
       \<and> activeJob (finishJob jobId t) = (if activeJob s = Some jobId then None else activeJob s)"
  using finishJob_drain[of jobId t] unfolding assms .

lemma completeJob_drain:
  assumes "getJob s jobId \<noteq> None"
  shows "\<exists>n. drainLog (completeJob now jobId s) =
         drainLog s @ replicate (Suc n) (if activeJob s = Some jobId then None else activeJob s)
       \<and> activeJob (completeJob now jobId s) = (if activeJob s = Some jobId then None else activeJob s)"
proof -
  from assms obtain job where j: "getJob s jobId = Some job" by auto
  let ?t = "modifyJob jobId (\<lambda>j. j\<lparr>job_status := Completed, completedAt := Some now\<rparr>) s"
  have e: "completeJob now jobId s = finishJob jobId ?t"
    using j by (simp add: completeJob_def notifyDependentJobs_def Let_def)
  show ?thesis unfolding e by (rule finishJob_drain_from) simp_all
qed

lemma failJob_drain:
  assumes "getJob s jobId \<noteq> None"
  shows "\<exists>n. drainLog (failJob now jobId err s) =
         drainLog s @ replicate (Suc n) (if activeJob s = Some jobId then None else activeJob s)
       \<and> activeJob (failJob now jobId err s) = (if activeJob s = Some jobId then None else activeJob s)"
proof -
  from assms obtain job where j: "getJob s jobId = Some job" by auto
  let ?t = "modifyJob jobId (\<lambda>j. j\<lparr>job_status := Failed, job_error := Some err,
              completedAt := Some now\<rparr>) s"
  let ?u = "if job_type job = Download
            then failDependentJobs now (job_id job) (''Dependency failed: '' @ err) ?t else ?t"
  have e: "failJob now jobId err s = finishJob jobId ?u"
    using j by (simp add: failJob_def Let_def)
  show ?thesis unfolding e by (rule finishJob_drain_from) simp_all
qed

lemma cancelJob_drain:
  assumes "getJob s jobId \<noteq> None"
  shows "\<exists>n. drainLog (snd (cancelJob now jobId s)) =
         drainLog s @ replicate (Suc n) (if activeJob s = Some jobId then None else activeJob s)
       \<and> activeJob (snd (cancelJob now jobId s)) = (if activeJob s = Some jobId then None else activeJob s)"
proof -
  from assms obtain job where j: "getJob s jobId = Some job" by auto
  let ?s1 = "s\<lparr>queue := remove1 jobId (queue s)\<rparr>"
  let ?s2 = "if activeJob ?s1 = Some jobId
             then (if truthy (job_downloadId job)
                   then snd (cancelDownload now (template (job_downloadId job)) ?s1)
                   else ?s1)\<lparr>activeJob := None\<rparr>
             else ?s1"
  let ?s3 = "modifyJob jobId (\<lambda>j. j\<lparr>job_status := Failed,
               job_error := Some ''Cancelled by user'', completedAt := Some now\<rparr>) ?s2"
  have e: "snd (cancelJob now jobId s) = processQueue ?s3"
    using j by (simp add: cancelJob_def Let_def)
  have d: "drainLog ?s3 = drainLog s" by simp
  have a: "activeJob ?s3 = (if activeJob s = Some jobId then None else activeJob s)" by simp
  from processQueue_drainLog[of ?s3] obtain n where
    "drainLog (processQueue ?s3) = drainLog ?s3 @ replicate (Suc n) (activeJob ?s3)" by blast
  then have "drainLog (processQueue ?s3) =
      drainLog s @ replicate (Suc n) (if activeJob s = Some jobId then None else activeJob s)"
    unfolding d a .
  moreover have "activeJob (processQueue ?s3) = (if activeJob s = Some jobId then None else activeJob s)"
    using a by (simp only: processQueue_fields)
  ultimately show ?thesis unfolding e by blast
qed

text \<open>
  Claim C3, as amended. \<open>completeJob\<close>, \<open>failJob\<close> and \<open>cancelJob\<close> on a job that is on
  record always reach \<open>processQueue\<close>. \<open>activeJob\<close> is cleared only when it names the job
  that ends: on every entry to \<open>processQueue\<close> and on return it is \<open>null\<close> if the job was
  the active one or no job was active, and it still names the other job when another job
  is active.
\<close>

theorem drain_after_terminal_transition:
  assumes "getJob s jobId \<noteq> None"
    and "s' = completeJob now jobId s \<or> s' = failJob now jobId err s \<or> s' = snd (cancelJob now jobId s)"
  shows "\<exists>n. drainLog s' =
           drainLog s @ replicate (Suc n) (if activeJob s = Some jobId then None else activeJob s)
         \<and> activeJob s' = (if activeJob s = Some jobId then None else activeJob s)"
  using assms(2) completeJob_drain[OF assms(1)] failJob_drain[OF assms(1)] cancelJob_drain[OF assms(1)]
  by blast


text \<open>
  The claim C3 as stated fails: with \<open>j1\<close> streaming and \<open>j2\<close> queued, cancelling \<open>j2\<close>
  makes it \<open>failed\<close> and enters \<open>processQueue\<close> with \<open>activeJob = j1\<close>, which is also
  its value on return.
\<close>

theorem drain_entered_while_other_job_active:
  "activeJob one_active_one_queued = Some ''j1''
   \<and> map_option job_status (getJob one_active_one_queued ''j2'') = Some Queued
   \<and> drainLog one_active_one_queued = [None]
   \<and> map_option job_status (getJob (snd (cancelJob 3 ''j2'' one_active_one_queued)) ''j2'') = Some Failed
   \<and> drainLog (snd (cancelJob 3 ''j2'' one_active_one_queued)) = [None, Some ''j1'']
   \<and> activeJob (snd (cancelJob 3 ''j2'' one_active_one_queued)) = Some ''j1''"
  by (simp add: one_active_one_queued_def sys_defs)

theorem drain_after_terminal_transition_witness:
  "getJob one_active_one_queued ''j1'' \<noteq> None
   \<and> activeJob one_active_one_queued = Some ''j1''
   \<and> (\<exists>n. drainLog (completeJob 3 ''j1'' one_active_one_queued) =
            drainLog one_active_one_queued @ replicate (Suc n) None)
   \<and> activeJob (completeJob 3 ''j1'' one_active_one_queued) = None"
proof -
  have a: "getJob one_active_one_queued ''j1'' \<noteq> None"
    and b: "activeJob one_active_one_queued = Some ''j1''"
    by (simp_all add: one_active_one_queued_def sys_defs)
  from drain_after_terminal_transition[OF a, of "completeJob 3 ''j1'' one_active_one_queued" 3 "[]"]
  show ?thesis using a b by auto
qed

subsection \<open>Dependencies\<close>

text \<open>
  Claim C4. The claim: when the dependency of a queued convert job becomes \<open>failed\<close>, the
  convert job leaves the queue and becomes \<open>failed\<close> with an error
  \<open>Dependency failed: ...\<close>. \<open>failJob\<close> and the listener's error branch do this
  (\<open>failed_dependency_fails_dependent\<close>), but \<open>cancelJob\<close> also sets the status \<open>failed\<close>
  and does not call \<open>failDependentJobs\<close>: after the download \<open>j1\<close> is cancelled, the
  dependent \<open>j2\<close> is still \<open>queued\<close>, at the head of the queue, and can never start.
\<close>

theorem cancelled_dependency_leaves_dependent_queued:
  "map_option job_status (getJob (snd (cancelJob 2 ''j1'' download_with_dependent)) ''j1'') = Some Failed
   \<and> map_option job_error (getJob (snd (cancelJob 2 ''j1'' download_with_dependent)) ''j1'')
       = Some (Some ''Cancelled by user'')
   \<and> map_option job_status (getJob (snd (cancelJob 2 ''j1'' download_with_dependent)) ''j2'') = Some Queued
   \<and> queue (snd (cancelJob 2 ''j1'' download_with_dependent)) = [''j2'']
   \<and> \<not> fst (startJob 3 ''j2'' ''j2'' (snd (cancelJob 2 ''j1'' download_with_dependent)))"
  by (simp add: download_with_dependent_def sys_defs)

lemma failed_dependency_fails_dependent:
  "map_option job_status (getJob (failJob 2 ''j1'' ''boom'' download_with_dependent) ''j2'') = Some Failed
   \<and> map_option job_error (getJob (failJob 2 ''j1'' ''boom'' download_with_dependent) ''j2'')
       = Some (Some ''Dependency failed: boom'')
   \<and> queue (failJob 2 ''j1'' ''boom'' download_with_dependent) = [''j1'']"
  by (simp add: download_with_dependent_def sys_defs)

lemma startJob_needs_completed_dependency:
  assumes "fst (startJob now jobId dlId s)" "getJob s jobId = Some job" "truthy (dependsOn job)"
  shows "\<exists>d. getJob s (template (dependsOn job)) = Some d \<and> job_status d = Completed"
  using assms
  by (auto simp: startJob_def canJobStart_def split: if_splits option.splits)

subsection \<open>Status transitions\<close>

text \<open>
  Claim C5. The claim: a status only moves forward, and \<open>completeJob\<close>, \<open>failJob\<close> and
  \<open>cancelJob\<close> leave a terminal status as it is. The three operations assign the status
  without looking at the old one: a completed job becomes \<open>failed\<close> under \<open>failJob\<close> and
  under \<open>cancelJob\<close>, and a failed job becomes \<open>completed\<close> under \<open>completeJob\<close>.
\<close>

theorem terminal_status_overwritten:
  "map_option job_status (getJob completed_download ''j1'') = Some Completed
   \<and> map_option job_status (getJob (failJob 3 ''j1'' ''late'' completed_download) ''j1'') = Some Failed
   \<and> map_option job_status (getJob (snd (cancelJob 3 ''j1'' completed_download)) ''j1'') = Some Failed
   \<and> map_option job_status (getJob (completeJob 4 ''j1'' (failJob 3 ''j1'' ''late'' completed_download)) ''j1'')
       = Some Completed"
  by (simp add: completed_download_def sys_defs)

lemma completed_while_queued_can_start:
  "map_option job_status (getJob (run [AddDownloadJob 0 ''u'' ''22'' (Some ''j1'') ''g1'',
       CompleteJob 1 ''j1''] initial) ''j1'') = Some Completed
   \<and> map_option job_status (getJob (run [AddDownloadJob 0 ''u'' ''22'' (Some ''j1'') ''g1'',
       CompleteJob 1 ''j1'', StartJob 2 ''j1'' ''j1''] initial) ''j1'') = Some Downloading"
  by (simp add: sys_defs)

lemma error_event_after_completion_fails_job:
  "map_option job_status (getJob (run [AddDownloadJob 0 ''u'' ''22'' (Some ''j1'') ''g1'',
       StartJob 1 ''j1'' ''j1'', CreateSession 1 ''u'' ''22'' (Some ''j1'') ''g2'',
       MarkCompleted 2 ''j1''] initial) ''j1'') = Some Completed
   \<and> map_option job_status (getJob (run [AddDownloadJob 0 ''u'' ''22'' (Some ''j1'') ''g1'',
       StartJob 1 ''j1'' ''j1'', CreateSession 1 ''u'' ''22'' (Some ''j1'') ''g2'',
       MarkCompleted 2 ''j1'', MarkError 3 ''j1'' ''yt-dlp process exited with code 1''] initial) ''j1'')
       = Some Failed"
  by (simp add: sys_defs)

subsection \<open>The progress bus\<close>

lemma finishJob_fields [simp]:
  "sessions (finishJob j s) = sessions s"
  "published (finishJob j s) = published s"
  "jobs (finishJob j s) = jobs s"
  by (simp_all add: finishJob_def)

lemma onProgress_fields [simp]:
  "sessions (onProgress now p s) = sessions s"
  "published (onProgress now p s) = published s"
  by (simp_all add: onProgress_def Let_def notifyDependentJobs_def split: option.splits prod.splits)

lemma emit_fields [simp]:
  "sessions (emit now p s) = sessions s"
  "published (emit now p s) = published s @ [p]"
  by (simp_all add: emit_def)

lemma completeJob_fields [simp]:
  "sessions (completeJob now j s) = sessions s"
  "published (completeJob now j s) = published s"
  by (simp_all add: completeJob_def Let_def notifyDependentJobs_def split: option.splits)

lemma failJob_fields [simp]:
  "sessions (failJob now j err s) = sessions s"
  "published (failJob now j err s) = published s"
  by (simp_all add: failJob_def Let_def split: option.splits)

lemma updateProgress_effect:
  "sessions s i = None \<Longrightarrow> updateProgress now i b t s = s"
  "sessions s i = Some session \<Longrightarrow>
     sessions (updateProgress now i b t s) =
       (sessions s)(i \<mapsto> session\<lparr>progress := \<lparr>downloadId = i, bytesDownloaded = b, totalBytes = t,
          percentage = (case t of None \<Rightarrow> None
                        | Some n \<Rightarrow> if n = 0 then None else Some (round_percent b n)),
          status = PDownloading, error = None\<rparr>\<rparr>)
     \<and> published (updateProgress now i b t s) =
         published s @ [\<lparr>downloadId = i, bytesDownloaded = b, totalBytes = t,
          percentage = (case t of None \<Rightarrow> None
                        | Some n \<Rightarrow> if n = 0 then None else Some (round_percent b n)),
          status = PDownloading, error = None\<rparr>]"
  by (simp_all add: updateProgress_def Let_def)

lemma markCompleted_effect:
  "sessions s i = None \<Longrightarrow> markCompleted now i s = s"
  "sessions s i = Some session \<Longrightarrow>
     sessions (markCompleted now i s) =
       (sessions s)(i \<mapsto> session\<lparr>progress := (progress session)\<lparr>status := PCompleted, percentage := Some 100\<rparr>\<rparr>)
     \<and> published (markCompleted now i s) =
         published s @ [(progress session)\<lparr>status := PCompleted, percentage := Some 100\<rparr>]"
  by (simp_all add: markCompleted_def Let_def)

lemma markError_effect:
  "sessions s i = None \<Longrightarrow> markError now i err s = s"
  "sessions s i = Some session \<Longrightarrow>
     sessions (markError now i err s) =
       (sessions s)(i \<mapsto> session\<lparr>progress := (progress session)\<lparr>status := PError, error := Some err\<rparr>\<rparr>)
     \<and> published (markError now i err s) =
         published s @ [(progress session)\<lparr>status := PError, error := Some err\<rparr>]"
  by (simp_all add: markError_def Let_def)

text \<open>
  Claim C6, as amended. On a session that exists, \<open>markCompleted\<close> leaves the status
  \<open>completed\<close>, \<open>markError\<close> leaves it \<open>error\<close> and \<open>updateProgress\<close> leaves it
  \<open>downloading\<close>, whatever the status was before. A terminal status therefore survives
  a later call only when the call is the same terminal mark again.
\<close>

theorem terminal_mark_overwrites_status:
  assumes "sessions s i = Some session"
  shows "map_option (\<lambda>x. status (progress x)) (sessions (markCompleted now i s) i) = Some PCompleted
       \<and> map_option (\<lambda>x. status (progress x)) (sessions (markError now i err s) i) = Some PError
       \<and> map_option (\<lambda>x. status (progress x)) (sessions (updateProgress now i b t s) i) = Some PDownloading"
  using assms by (simp add: updateProgress_effect markCompleted_effect markError_effect)

text \<open>
  The claim C6 as stated fails: a session in status \<open>error\<close> becomes \<open>completed\<close> under
  \<open>markCompleted\<close> and \<open>downloading\<close> under \<open>updateProgress\<close>.
\<close>

theorem terminal_status_changes_again:
  "map_option (\<lambda>x. status (progress x)) (sessions errored_session ''d1'') = Some PError
   \<and> map_option (\<lambda>x. status (progress x)) (sessions (markCompleted 2 ''d1'' errored_session) ''d1'')
       = Some PCompleted
   \<and> map_option (\<lambda>x. status (progress x)) (sessions (updateProgress 2 ''d1'' 10 None errored_session) ''d1'')
       = Some PDownloading"
  by (simp add: errored_session_def sys_defs)

theorem terminal_mark_overwrites_status_witness:
  "sessions errored_session ''d1'' \<noteq> None
   \<and> map_option (\<lambda>x. status (progress x)) (sessions errored_session ''d1'') = Some PError
   \<and> map_option (\<lambda>x. status (progress x)) (sessions (markError 2 ''d1'' ''again'' errored_session) ''d1'')
       = Some PError"
proof -
  have "sessions errored_session ''d1'' \<noteq> None"
    and e: "map_option (\<lambda>x. status (progress x)) (sessions errored_session ''d1'') = Some PError"
    by (simp_all add: errored_session_def sys_defs)
  then obtain session where a: "sessions errored_session ''d1'' = Some session" by blast
  from terminal_mark_overwrites_status[OF a, where now = 2 and err = "''again''"] a e
  show ?thesis by simp
qed

subsection \<open>Events published by a stream\<close>




lemma cleanup_fields [simp]:
  "dl_downloadId (cleanup d) = dl_downloadId d"
  "dl_bytesDownloaded (cleanup d) = dl_bytesDownloaded d"
  by (simp_all add: cleanup_def)





lemma streamRun_id [simp]: "dl_downloadId (fst (streamRun es ds)) = dl_downloadId (fst ds)"
proof (induction es ds rule: streamRun.induct)
  case (1 ds)
  then show ?case by simp
next
  case (2 now e es ds)
  obtain d s where ds: "ds = (d, s)" by (cases ds)
  have "dl_downloadId (fst (streamStep now e (d, s))) = dl_downloadId d"
    by (cases e) (auto simp: Let_def onExit_def split: option.splits)
  with 2 ds show ?case by simp
qed











lemma stream_defs_eval:
  "streamRun [] ds = ds"
  "streamRun ((now, e) # es) ds = streamRun es (streamStep now e ds)"
  by simp_all



subsection \<open>The URL policy\<close>

lemma decimal_two_digits:
  "10 \<le> n \<Longrightarrow> n < 100 \<Longrightarrow>
     decimal n = [''0123456789'' ! (n div 10), ''0123456789'' ! (n mod 10)]"
  by (subst decimal.simps) (simp add: decimal.simps[of "n div 10"])

lemma decimal_16_31:
  "decimal ` {16..31} = set [''16'', ''17'', ''18'', ''19'', ''20'', ''21'', ''22'', ''23'', ''24'',
     ''25'', ''26'', ''27'', ''28'', ''29'', ''30'', ''31'']"
proof -
  have "{16..31::nat} = {16..<32}" by auto
  also have "\<dots> = set [16..<32]" by (simp only: set_upt)
  finally have "{16..31::nat} = set [16..<32]" .
  then have "decimal ` {16..31} = set (map decimal [16..<32])" by simp
  also have "map decimal [16..<32] = [''16'', ''17'', ''18'', ''19'', ''20'', ''21'', ''22'', ''23'', ''24'',
     ''25'', ''26'', ''27'', ''28'', ''29'', ''30'', ''31'']"
    by (simp add: upt_rec_numeral decimal_two_digits)
  finally show ?thesis .
qed

lemma startsWith_simps [simp]:
  "startsWith [] h"
  "startsWith (c # p) h \<longleftrightarrow> (\<exists>t. h = c # t \<and> startsWith p t)"
  by (cases h; auto simp: startsWith_def)+

lemma private172_iff:
  "private172 h \<longleftrightarrow> (\<exists>n \<in> {16..31}. startsWith (''172.'' @ decimal n @ ''.'') h)"
proof -
  have "(\<exists>n \<in> {16..31}. startsWith (''172.'' @ decimal n @ ''.'') h)
        \<longleftrightarrow> (\<exists>d \<in> decimal ` {16..31}. startsWith (''172.'' @ d @ ''.'') h)"
    by blast
  also have "\<dots> \<longleftrightarrow> private172 h"
    unfolding decimal_16_31 private172_def
    by (auto split: list.splits)
  finally show ?thesis ..
qed

lemma foldAscii_toLowerCaseChar [simp]: "foldAscii (toLowerCaseChar c) = toLowerCaseChar c"
proof -
  let ?n = "of_char c :: nat"
  show ?thesis
  proof (cases "(65 \<le> ?n \<and> ?n \<le> 90) \<or> (192 \<le> ?n \<and> ?n \<le> 214) \<or> (216 \<le> ?n \<and> ?n \<le> 222)")
    case True
    then have "(of_char (char_of (?n + 32) :: char) :: nat) = ?n + 32"
      by (auto simp: of_char_of)
    with True show ?thesis
      by (auto simp: foldAscii_def toLowerCaseChar_def Let_def)
  next
    case False
    then show ?thesis by (auto simp: foldAscii_def toLowerCaseChar_def Let_def)
  qed
qed

lemma startsWithI_lower [simp]: "startsWithI p (toLowerCase h) = startsWith p (toLowerCase h)"
  by (simp add: startsWithI_def startsWith_def toLowerCase_def take_map comp_def)

lemma blocked_lower:
  "list_ex (\<lambda>pattern. pattern (toLowerCase h)) BLOCKED_PATTERNS
     \<or> toLowerCase h = ''localhost'' \<or> toLowerCase h = ''127.0.0.1'' \<or> toLowerCase h = ''::1''
   \<longleftrightarrow> blocklistMatch (toLowerCase h) \<or> schemeLike (toLowerCase h)"
  unfolding BLOCKED_PATTERNS_def blocklistMatch_def schemeLike_def private172_iff[symmetric]
  by (simp del: startsWith_simps) (auto simp: startsWith_def)

lemma lower_ascii_lowercase [simp]:
  "toLowerCase ''example.test'' = ''example.test''"
  "toLowerCase ''localhost'' = ''localhost''"
  "toLowerCase ''[::1]'' = ''[::1]''"
  "toLowerCase [] = []"
  by (simp_all add: toLowerCase_def toLowerCaseChar_def)

text \<open>
  Claim C8. The claim: \<open>isValidUrl\<close> answers false for every URL whose host is on the
  blocklist, the IPv6 loopback \<open>::1\<close> included. The source compares the \<open>hostname\<close>
  property with \<open>'::1'\<close>, but the platform's parser writes an IPv6 host in brackets, and
  neither a pattern nor a comparison matches \<open>[::1]\<close>: the URL \<open>http://[::1]/\<close> of the
  loopback is accepted.
\<close>

theorem ipv6_loopback_accepted:
  "simpleParse ''http://[::1]/'' = Some (''http:'', ''[::1]'')
   \<and> isValidUrl simpleParse ''http://[::1]/''"
  by (simp add: simpleParse_def isValidUrl_def BLOCKED_PATTERNS_def startsWithI_def
      startsWith_def private172_def foldAscii_def)

text \<open>The same for every parser that gives this protocol and host name.\<close>

lemma bracketed_ipv6_loopback_not_blocked:
  assumes "parseURL url = Some (''http:'', ''[::1]'')" "url \<noteq> []" "length url \<le> 2048"
  shows "isValidUrl parseURL url"
  using assms
  by (simp add: isValidUrl_def BLOCKED_PATTERNS_def startsWithI_def startsWith_def private172_def
      foldAscii_def)

text \<open>
  The rest of the claim holds, in terms of the host name that the parser returns:
  \<open>isValidUrl\<close> is a function of the string (and of the platform's parser). It
  answers false for a string longer than 2048, for a scheme other than http and https, and
  for a host name that matches the blocklist after lower-casing; it answers true exactly
  for the non-empty strings of at most 2048 characters that parse with scheme http or https
  and a non-empty host name that matches neither the blocklist nor one of the scheme-like
  patterns of \<open>BLOCKED_PATTERNS\<close>.
\<close>

lemma isValidUrl_policy:
  "(isValidUrl parseURL url \<longleftrightarrow>
      url \<noteq> [] \<and> length url \<le> 2048 \<and>
      (\<exists>protocol host. parseURL url = Some (protocol, host)
         \<and> (protocol = ''http:'' \<or> protocol = ''https:'') \<and> host \<noteq> []
         \<and> \<not> blocklistMatch (toLowerCase host) \<and> \<not> schemeLike (toLowerCase host)))
   \<and> (length url > 2048 \<longrightarrow> \<not> isValidUrl parseURL url)
   \<and> (\<forall>protocol host. parseURL url = Some (protocol, host) \<and> protocol \<noteq> ''http:''
         \<and> protocol \<noteq> ''https:'' \<longrightarrow> \<not> isValidUrl parseURL url)
   \<and> (\<forall>protocol host. parseURL url = Some (protocol, host) \<and> blocklistMatch (toLowerCase host)
         \<longrightarrow> \<not> isValidUrl parseURL url)"
proof -
  have main: "isValidUrl parseURL url \<longleftrightarrow>
      url \<noteq> [] \<and> length url \<le> 2048 \<and>
      (\<exists>protocol host. parseURL url = Some (protocol, host)
         \<and> (protocol = ''http:'' \<or> protocol = ''https:'') \<and> host \<noteq> []
         \<and> \<not> blocklistMatch (toLowerCase host) \<and> \<not> schemeLike (toLowerCase host))"
  proof (cases "parseURL url")
    case None
    then show ?thesis by (simp add: isValidUrl_def)
  next
    case (Some ph)
    obtain protocol host where ph: "ph = (protocol, host)" by (cases ph)
    have e: "toLowerCase host = [] \<longleftrightarrow> host = []" by (simp add: toLowerCase_def)
    have v: "isValidUrl parseURL url \<longleftrightarrow>
        url \<noteq> [] \<and> length url \<le> 2048 \<and> (protocol = ''http:'' \<or> protocol = ''https:'')
        \<and> \<not> (list_ex (\<lambda>pattern. pattern (toLowerCase host)) BLOCKED_PATTERNS
              \<or> toLowerCase host = ''localhost'' \<or> toLowerCase host = ''127.0.0.1''
              \<or> toLowerCase host = ''::1'')
        \<and> toLowerCase host \<noteq> []"
      using Some ph unfolding isValidUrl_def Let_def
      by (auto simp del: startsWith_simps)
    show ?thesis
      unfolding v blocked_lower e using Some ph by auto
  qed
  then show ?thesis by auto
qed

lemma isValidUrl_policy_examples:
  "isValidUrl simpleParse ''https://example.test/v''
   \<and> simpleParse ''http://localhost/x'' = Some (''http:'', ''localhost'')
   \<and> blocklistMatch (toLowerCase ''localhost'')
   \<and> \<not> isValidUrl simpleParse ''http://localhost/x''
   \<and> simpleParse ''file:///etc/passwd'' = Some (''file:'', [])
   \<and> \<not> isValidUrl simpleParse ''file:///etc/passwd''
   \<and> \<not> isValidUrl simpleParse (''https://example.test/'' @ replicate 2048 CHR ''a'')"
proof -
  have p1: "simpleParse ''https://example.test/v'' = Some (''https:'', ''example.test'')"
    and p2: "simpleParse ''http://localhost/x'' = Some (''http:'', ''localhost'')"
    and p3: "simpleParse ''file:///etc/passwd'' = Some (''file:'', [])"
    by (simp_all add: simpleParse_def)
  have b1: "\<not> blocklistMatch ''example.test''" "\<not> schemeLike ''example.test''"
    and b2: "blocklistMatch ''localhost''"
    by (simp_all add: blocklistMatch_def schemeLike_def)
  have l: "length (''https://example.test/'' @ replicate 2048 CHR ''a'') > 2048" by simp
  from isValidUrl_policy[of simpleParse "''https://example.test/v''"]
       isValidUrl_policy[of simpleParse "''http://localhost/x''"]
       isValidUrl_policy[of simpleParse "''file:///etc/passwd''"]
       isValidUrl_policy[of simpleParse "''https://example.test/'' @ replicate 2048 CHR ''a''"]
  show ?thesis
    unfolding p1 p2 p3 using b1 b2 l by (simp del: startsWith_simps)
qed

subsection \<open>The formats of an analysis\<close>

lemma insertBy_set [simp]: "set (insertBy cmp x ys) = insert x (set ys)"
  by (induction ys) auto

lemma sortBy_simps:
  "sortBy cmp [] = []"
  "sortBy cmp (x # xs) = insertBy cmp x (sortBy cmp xs)"
  by (simp_all add: sortBy_def)

lemma sortBy_set [simp]: "set (sortBy cmp xs) = set xs"
  by (induction xs) (simp_all add: sortBy_simps)

lemma insertBy_distinct_map:
  "distinct (map f (insertBy cmp x ys)) \<longleftrightarrow> f x \<notin> f ` set ys \<and> distinct (map f ys)"
  by (induction ys) auto

lemma sortBy_distinct_map: "distinct (map f (sortBy cmp xs)) \<longleftrightarrow> distinct (map f xs)"
  by (induction xs) (simp_all add: sortBy_simps insertBy_distinct_map)

lemma insertBy_sorted:
  assumes tot: "\<And>a b. cmp a b \<le> 0 \<or> cmp b a \<le> 0"
    and trans: "\<And>a b c. cmp a b \<le> 0 \<Longrightarrow> cmp b c \<le> 0 \<Longrightarrow> cmp a c \<le> 0"
  shows "sorted_wrt (\<lambda>a b. cmp a b \<le> 0) ys \<Longrightarrow> sorted_wrt (\<lambda>a b. cmp a b \<le> 0) (insertBy cmp x ys)"
proof (induction ys)
  case Nil
  then show ?case by simp
next
  case (Cons y ys)
  show ?case
  proof (cases "cmp x y \<le> 0")
    case True
    with Cons.prems have "\<forall>z \<in> set (y # ys). cmp x z \<le> 0"
      by (auto intro: trans)
    with True Cons.prems show ?thesis by simp
  next
    case False
    with tot[of x y] have "cmp y x \<le> 0" by simp
    with False Cons show ?thesis by auto
  qed
qed

lemma sortBy_sorted:
  assumes "\<And>a b. cmp a b \<le> 0 \<or> cmp b a \<le> 0"
    and "\<And>a b c. cmp a b \<le> 0 \<Longrightarrow> cmp b c \<le> 0 \<Longrightarrow> cmp a c \<le> 0"
  shows "sorted_wrt (\<lambda>a b. cmp a b \<le> 0) (sortBy cmp xs)"
proof (induction xs)
  case Nil
  then show ?case by (simp add: sortBy_simps)
next
  case (Cons x xs)
  then show ?case by (simp add: sortBy_simps insertBy_sorted[OF assms])
qed

lemma compareFormats_le:
  "compareFormats a b \<le> 0 \<longleftrightarrow>
     (out_type a = Audio \<longrightarrow> out_type b = Audio)
     \<and> (out_type a = out_type b \<longrightarrow>
          extractResolutionValue (out_resolution b) \<le> extractResolutionValue (out_resolution a))"
  by (cases "out_type a"; cases "out_type b") (auto simp: compareFormats_def differenceSign_def)

lemma compareFormats_total: "compareFormats a b \<le> 0 \<or> compareFormats b a \<le> 0"
  unfolding compareFormats_le by (cases "out_type a"; cases "out_type b") auto

lemma compareFormats_trans:
  "compareFormats a b \<le> 0 \<Longrightarrow> compareFormats b c \<le> 0 \<Longrightarrow> compareFormats a c \<le> 0"
  unfolding compareFormats_le
  by (cases "out_type a"; cases "out_type b"; cases "out_type c") auto

lemma findIndex_Some:
  "findIndex P xs = Some i \<Longrightarrow> i < length xs \<and> P (xs ! i)"
  by (induction xs arbitrary: i) (auto split: if_splits)

lemma findIndex_None: "findIndex P xs = None \<Longrightarrow> \<forall>x \<in> set xs. \<not> P x"
  by (induction xs) (auto split: if_splits)

lemma sameKind_triple: "sameKind g f \<longleftrightarrow> sameTriple f = sameTriple g"
  by (auto simp: sameKind_def sameTriple_def)

lemma formatKey_triple: "sameTriple f = sameTriple g \<Longrightarrow> formatKey f = formatKey g"
  by (simp add: formatKey_def sameTriple_def)

lemma in_set_update:
  "f \<in> set (xs[i := y]) \<Longrightarrow> f = y \<or> (\<exists>j. j < length xs \<and> j \<noteq> i \<and> f = xs ! j)"
proof -
  assume "f \<in> set (xs[i := y])"
  then obtain k where k: "k < length xs" "f = xs[i := y] ! k"
    by (auto simp: in_set_conv_nth)
  show ?thesis
  proof (cases "k = i")
    case True
    with k show ?thesis by simp
  next
    case False
    with k have "f = xs ! k" by simp
    with k False show ?thesis by blast
  qed
qed

lemma distinct_map_nth:
  assumes "distinct (map h xs)" "i < length xs" "j < length xs" "h (xs ! j) = h (xs ! i)"
  shows "j = i"
proof -
  have "(map h xs ! j = map h xs ! i) = (j = i)"
    by (rule nth_eq_iff_index_eq) (use assms in simp_all)
  with assms show ?thesis by simp
qed

lemma loopInv_step:
  assumes "loopInv fmt before st"
  shows "loopInv fmt (before @ [r]) (loopBody fmt r st)"
proof -
  obtain ps seen where st: "st = (ps, seen)" by (cases st)
  from assms st have d: "distinct (map sameTriple ps)"
    and k: "\<forall>f \<in> set ps. formatKey f \<in> set seen"
    and rk: "\<forall>r \<in> set before. \<not> skipped r \<longrightarrow> formatKey (processFormat fmt r) \<in> set seen"
    and u: "\<forall>f \<in> set ps. out_filesize f = ''unknown'' \<longrightarrow>
           (\<forall>r \<in> set before. \<not> skipped r \<and> sameTriple (processFormat fmt r) = sameTriple f
              \<longrightarrow> out_filesize (processFormat fmt r) = ''unknown'')"
    by (auto simp: loopInv_def)
  let ?f = "processFormat fmt r"
  show ?thesis
  proof (cases "skipped r")
    case True
    with assms st show ?thesis by (auto simp: loopBody_def loopInv_def)
  next
    case ns: False
    show ?thesis
    proof (cases "formatKey ?f \<in> set seen")
      case False
      have new: "sameTriple ?f \<notin> sameTriple ` set ps"
      proof
        assume "sameTriple ?f \<in> sameTriple ` set ps"
        then obtain g where "g \<in> set ps" "sameTriple ?f = sameTriple g" by auto
        with k formatKey_triple[of ?f g] have "formatKey ?f \<in> set seen" by auto
        with False show False by simp
      qed
      have none: "\<forall>r' \<in> set before. \<not> skipped r' \<longrightarrow> sameTriple (processFormat fmt r') \<noteq> sameTriple ?f"
      proof (intro ballI impI notI)
        fix r' assume "r' \<in> set before" "\<not> skipped r'"
          and "sameTriple (processFormat fmt r') = sameTriple ?f"
        with rk formatKey_triple[of "processFormat fmt r'" ?f] have "formatKey ?f \<in> set seen" by auto
        with False show False by simp
      qed
      have "loopBody fmt r st = (ps @ [?f], seen @ [formatKey ?f])"
        using ns False st by (simp add: loopBody_def Let_def)
      moreover have "loopInv fmt (before @ [r]) (ps @ [?f], seen @ [formatKey ?f])"
        unfolding loopInv_def using d k rk u new none
        by (auto simp: image_iff)
      ultimately show ?thesis by simp
    next
      case seen: True
      show ?thesis
      proof (cases "findIndex (sameKind ?f) ps")
        case None
        then have no: "\<forall>g \<in> set ps. sameTriple g \<noteq> sameTriple ?f"
          using findIndex_None[OF None] by (auto simp: sameKind_triple)
        have "loopBody fmt r st = st"
          using ns seen st None by (simp add: loopBody_def Let_def)
        moreover have "loopInv fmt (before @ [r]) (ps, seen)"
          unfolding loopInv_def using d k rk u no seen ns
          by auto
        ultimately show ?thesis using st by simp
      next
        case (Some i)
        from findIndex_Some[OF Some] have i: "i < length ps"
          and same: "sameTriple (ps ! i) = sameTriple ?f"
          by (auto simp: sameKind_triple)
        have uniq: "\<forall>g \<in> set ps. sameTriple g = sameTriple ?f \<longrightarrow> g = ps ! i"
        proof
          fix g assume "g \<in> set ps"
          then obtain j where j: "j < length ps" "g = ps ! j" by (auto simp: in_set_conv_nth)
          show "sameTriple g = sameTriple ?f \<longrightarrow> g = ps ! i"
          proof
            assume "sameTriple g = sameTriple ?f"
            with same j have "sameTriple (ps ! j) = sameTriple (ps ! i)" by simp
            with d i j have "j = i" by (intro distinct_map_nth[of sameTriple ps])
            with j show "g = ps ! i" by simp
          qed
        qed
        show ?thesis
        proof (cases "out_filesize ?f \<noteq> ''unknown'' \<and> out_filesize (ps ! i) = ''unknown''")
          case True
          have e: "loopBody fmt r st = (ps[i := ?f], seen)"
            using ns seen st Some True by (simp add: loopBody_def Let_def)
          have m: "map sameTriple (ps[i := ?f]) = map sameTriple ps"
            using same i by (simp add: map_update list_update_same_conv)
          have sub: "set (ps[i := ?f]) \<subseteq> insert ?f (set ps)" by (rule set_update_subset_insert)
          have "loopInv fmt (before @ [r]) (ps[i := ?f], seen)"
            unfolding loopInv_def fst_conv snd_conv m
          proof (intro conjI ballI impI)
            show "distinct (map sameTriple ps)" by (rule d)
          next
            fix f assume "f \<in> set (ps[i := ?f])"
            with sub k seen show "formatKey f \<in> set seen" by auto
          next
            fix r' assume "r' \<in> set (before @ [r])" "\<not> skipped r'"
            with rk seen show "formatKey (processFormat fmt r') \<in> set seen" by auto
          next
            fix f r' assume f: "f \<in> set (ps[i := ?f])" and unk: "out_filesize f = ''unknown''"
              and r': "r' \<in> set (before @ [r])"
              and c: "\<not> skipped r' \<and> sameTriple (processFormat fmt r') = sameTriple f"
            from f sub unk True have fin: "f \<in> set ps" "f \<noteq> ?f" by auto
            from f fin(2) obtain j where j: "j < length ps" "j \<noteq> i" "f = ps ! j"
              using in_set_update by metis
            from d i j have "sameTriple (ps ! j) \<noteq> sameTriple (ps ! i)"
              using distinct_map_nth[of sameTriple ps i j] by blast
            with j same have ne: "sameTriple f \<noteq> sameTriple ?f" by simp
            with c have "r' \<noteq> r" by auto
            with r' have "r' \<in> set before" by simp
            with u fin unk c show "out_filesize (processFormat fmt r') = ''unknown''" by blast
          qed
          with e show ?thesis by simp
        next
          case False
          have e: "loopBody fmt r st = st"
            using ns seen st Some False by (auto simp: loopBody_def Let_def)
          have "loopInv fmt (before @ [r]) (ps, seen)"
            unfolding loopInv_def fst_conv snd_conv
          proof (intro conjI ballI impI)
            show "distinct (map sameTriple ps)" by (rule d)
          next
            fix f assume "f \<in> set ps"
            with k show "formatKey f \<in> set seen" by auto
          next
            fix r' assume "r' \<in> set (before @ [r])" "\<not> skipped r'"
            with rk seen show "formatKey (processFormat fmt r') \<in> set seen" by auto
          next
            fix f r' assume f: "f \<in> set ps" and unk: "out_filesize f = ''unknown''"
              and r': "r' \<in> set (before @ [r])"
              and c: "\<not> skipped r' \<and> sameTriple (processFormat fmt r') = sameTriple f"
            show "out_filesize (processFormat fmt r') = ''unknown''"
            proof (cases "r' = r")
              case True
              with c uniq f have "f = ps ! i" by auto
              with unk False True show ?thesis by auto
            next
              case False
              with r' have "r' \<in> set before" by simp
              with u f unk c show ?thesis by blast
            qed
          qed
          with e st show ?thesis by simp
        qed
      qed
    qed
  qed
qed

lemma loopInv_fold:
  "loopInv fmt before st \<Longrightarrow> loopInv fmt (before @ rs) (fold (loopBody fmt) rs st)"
proof (induction rs arbitrary: before st)
  case Nil
  then show ?case by simp
next
  case (Cons r rs)
  from Cons.IH[OF loopInv_step[OF Cons.prems, of r]] show ?case by simp
qed

lemma decimal_values: "decimal 100 = ''100''" "decimal 360 = ''360''" "decimal 720 = ''720''"
  "decimal 5000 = ''5000''" "decimal 1080 = ''1080''" "decimal 480 = ''480''"
  by (simp_all add: decimal.simps)

lemma ext_values:
  "normalizeContainerType ''m4a'' = Name ''mp4''" "normalizeContainerType ''mp4'' = Name ''mp4''"
  "normalizeContainerType ''constructor'' = ObjectFunction"
  by (simp_all add: normalizeContainerType_def trim_def strip_ends_def toLowerCase_def
      toLowerCaseChar_def is_space_def)

lemma processed_values:
  "processFormat bytesOnly (raw ''140'' ''m4a'' ''none'' ''mp4a'' None (Some 100)) =
     \<lparr>out_format_id = ''140'', out_ext = Name ''mp4'', out_resolution = ''audio'',
      out_filesize = ''100 B'', out_type = Audio\<rparr>"
  "processFormat bytesOnly (raw ''18'' ''mp4'' ''avc1'' ''mp4a'' (Some 360) None) =
     \<lparr>out_format_id = ''18'', out_ext = Name ''mp4'', out_resolution = ''360p'',
      out_filesize = ''unknown'', out_type = Video\<rparr>"
  "processFormat bytesOnly (raw ''22'' ''mp4'' ''avc1'' ''mp4a'' (Some 720) None) =
     \<lparr>out_format_id = ''22'', out_ext = Name ''mp4'', out_resolution = ''720p'',
      out_filesize = ''unknown'', out_type = Video\<rparr>"
  "processFormat bytesOnly (raw ''18b'' ''mp4'' ''avc1'' ''none'' (Some 360) (Some 5000)) =
     \<lparr>out_format_id = ''18b'', out_ext = Name ''mp4'', out_resolution = ''360p'',
      out_filesize = ''5000 B'', out_type = Video\<rparr>"
  by (simp_all add: processFormat_def raw_def hasVideo_def truthy_def template_def ext_values
      normalizeResolution_def truthyNum_def number_def decimal_values normalizeFileSize_def
      bytesOnly_def)

lemma skipped_values:
  "\<not> skipped (raw ''140'' ''m4a'' ''none'' ''mp4a'' None (Some 100))"
  "\<not> skipped (raw ''18'' ''mp4'' ''avc1'' ''mp4a'' (Some 360) None)"
  "\<not> skipped (raw ''22'' ''mp4'' ''avc1'' ''mp4a'' (Some 720) None)"
  "\<not> skipped (raw ''18b'' ''mp4'' ''avc1'' ''none'' (Some 360) (Some 5000))"
  "skipped (raw ''hls'' ''m3u8'' ''avc1'' ''none'' (Some 1080) (Some 5000))"
  by (simp_all add: skipped_def raw_def hasVideo_def hasAudio_def truthy_def truthyNum_def)

lemma resolution_values:
  "extractResolutionValue ''720p'' = 720" "extractResolutionValue ''360p'' = 360"
  "extractResolutionValue ''audio'' = 0"
  "extractResolutionValue ''640x360'' = 640" "extractResolutionValue ''480p'' = 480"
  by (simp_all add: extractResolutionValue_def isDigit_def parseInt_def digitValue_def
      numberValue_exact numeral_eq_enat)

lemma sample_loop:
  "fold (loopBody bytesOnly) sampleFormats ([], []) =
     ([\<lparr>out_format_id = ''140'', out_ext = Name ''mp4'', out_resolution = ''audio'',
         out_filesize = ''100 B'', out_type = Audio\<rparr>,
       \<lparr>out_format_id = ''18b'', out_ext = Name ''mp4'', out_resolution = ''360p'',
         out_filesize = ''5000 B'', out_type = Video\<rparr>,
       \<lparr>out_format_id = ''22'', out_ext = Name ''mp4'', out_resolution = ''720p'',
         out_filesize = ''unknown'', out_type = Video\<rparr>],
      [''audio-mp4-audio'', ''video-mp4-360p'', ''video-mp4-720p''])"
  by (simp add: sampleFormats_def loopBody_def processed_values skipped_values formatKey_def
      typeName_def sameKind_def containerText_def Let_def)

lemma sampleFormats_normalized:
  "normalizeResponse bytesOnly sampleFormats =
     [\<lparr>out_format_id = ''22'', out_ext = Name ''mp4'', out_resolution = ''720p'',
        out_filesize = ''unknown'', out_type = Video\<rparr>,
      \<lparr>out_format_id = ''18b'', out_ext = Name ''mp4'', out_resolution = ''360p'',
        out_filesize = ''5000 B'', out_type = Video\<rparr>,
      \<lparr>out_format_id = ''140'', out_ext = Name ''mp4'', out_resolution = ''audio'',
        out_filesize = ''100 B'', out_type = Audio\<rparr>]"
  by (simp add: normalizeResponse_def sample_loop sortBy_simps compareFormats_def
      differenceSign_def resolution_values)

lemma mixed_loop:
  "fold (loopBody bytesOnly) mixedResolutions ([], []) =
     ([\<lparr>out_format_id = ''hd'', out_ext = Name ''mp4'', out_resolution = ''480p'',
         out_filesize = ''unknown'', out_type = Video\<rparr>,
       \<lparr>out_format_id = ''sd'', out_ext = Name ''mp4'', out_resolution = ''640x360'',
         out_filesize = ''unknown'', out_type = Video\<rparr>],
      [''video-mp4-480p'', ''video-mp4-640x360''])"
  by (simp add: mixedResolutions_def loopBody_def processFormat_def skipped_def raw_def
      hasVideo_def hasAudio_def truthy_def truthyNum_def template_def ext_values
      normalizeResolution_def number_def decimal_values normalizeFileSize_def trim_def
      strip_ends_def is_space_def endsWith_def formatKey_def typeName_def containerText_def
      Let_def)

text \<open>
  Claim C9. The claim: no two entries of the formats share type, extension and resolution,
  every video entry precedes every audio entry, and within each kind the entries are
  ordered by descending numeric resolution. The sort key is the first run of digits of
  the resolution string. The comment in \<open>extractResolutionValue\<close> says that it is the
  height of \<open>1920x1080\<close>, but it is the width: a video of 360 lines that is 640 wide is
  placed before a video of 480 lines.
\<close>

theorem lower_resolution_sorted_first:
  "map (\<lambda>f. (out_format_id f, out_type f, out_resolution f))
       (normalizeResponse bytesOnly mixedResolutions)
     = [(''sd'', Video, ''640x360''), (''hd'', Video, ''480p'')]
   \<and> extractResolutionValue ''640x360'' = 640
   \<and> extractResolutionValue ''480p'' = 480"
  by (simp add: normalizeResponse_def mixed_loop sortBy_simps compareFormats_def
      differenceSign_def resolution_values)

text \<open>
  The rest of the claim holds. In the formats that \<open>normalizeResponse\<close> returns, no two
  entries have the same type, extension and resolution; an entry whose size is \<open>unknown\<close>
  stands for formats of the input that all have an unknown size (a format with a known
  size replaces it); no audio entry comes before a video entry; and among entries of one
  type the sort key, the value of \<open>extractResolutionValue\<close>, does not increase.
\<close>

lemma normalizeResponse_formats:
  "distinct (map (\<lambda>f. (out_type f, out_ext f, out_resolution f)) (normalizeResponse fmt raws))
   \<and> (\<forall>f \<in> set (normalizeResponse fmt raws). out_filesize f = ''unknown'' \<longrightarrow>
         (\<forall>r \<in> set raws. \<not> skipped r \<and> sameKind f (processFormat fmt r)
            \<longrightarrow> out_filesize (processFormat fmt r) = ''unknown''))
   \<and> sorted_wrt (\<lambda>a b. (out_type a = Audio \<longrightarrow> out_type b = Audio)
         \<and> (out_type a = out_type b \<longrightarrow>
              extractResolutionValue (out_resolution b) \<le> extractResolutionValue (out_resolution a)))
       (normalizeResponse fmt raws)"
proof -
  let ?st = "fold (loopBody fmt) raws ([], [])"
  have "loopInv fmt [] ([], [])" by (simp add: loopInv_def)
  from loopInv_fold[OF this, of raws] have inv: "loopInv fmt raws ?st" by simp
  have a: "distinct (map (\<lambda>f. (out_type f, out_ext f, out_resolution f)) (normalizeResponse fmt raws))"
    using inv by (simp add: normalizeResponse_def sortBy_distinct_map loopInv_def sameTriple_def[abs_def])
  have b: "\<forall>f \<in> set (normalizeResponse fmt raws). out_filesize f = ''unknown'' \<longrightarrow>
         (\<forall>r \<in> set raws. \<not> skipped r \<and> sameKind f (processFormat fmt r)
            \<longrightarrow> out_filesize (processFormat fmt r) = ''unknown'')"
    using inv by (simp add: normalizeResponse_def loopInv_def sameKind_triple)
  have "sorted_wrt (\<lambda>a b. compareFormats a b \<le> 0) (normalizeResponse fmt raws)"
    unfolding normalizeResponse_def
    by (rule sortBy_sorted, rule compareFormats_total, erule compareFormats_trans, assumption)
  then have c: "sorted_wrt (\<lambda>a b. (out_type a = Audio \<longrightarrow> out_type b = Audio)
         \<and> (out_type a = out_type b \<longrightarrow>
              extractResolutionValue (out_resolution b) \<le> extractResolutionValue (out_resolution a)))
       (normalizeResponse fmt raws)"
    by (simp add: compareFormats_le)
  from a b c show ?thesis by blast
qed

lemma normalizeResponse_formats_example:
  "map (\<lambda>f. (out_type f, out_ext f, out_resolution f, out_filesize f))
       (normalizeResponse bytesOnly sampleFormats) =
     [(Video, Name ''mp4'', ''720p'', ''unknown''), (Video, Name ''mp4'', ''360p'', ''5000 B''),
      (Audio, Name ''mp4'', ''audio'', ''100 B'')]
   \<and> map (\<lambda>f. extractResolutionValue (out_resolution f))
       (normalizeResponse bytesOnly sampleFormats) = [720, 360, 0]"
  using normalizeResponse_formats[of bytesOnly sampleFormats]
  unfolding sampleFormats_normalized
  by (simp add: resolution_values)

subsection \<open>The sanitiser within its cap\<close>

lemma plain_not_space: "plain_char c \<Longrightarrow> \<not> is_space c"
  by (auto simp: plain_char_def is_word_def is_space_def)

lemma keep_char_cases: "keep_char c \<longleftrightarrow> plain_char c \<or> is_space c"
  by (auto simp: keep_char_def plain_char_def)

lemma plain_95: "plain_char 95"
  by (simp add: plain_char_def is_word_def)

lemma replace_runs_set:
  "set (replace_runs P xs) \<subseteq> insert 95 {c \<in> set xs. \<not> P c}"
proof (induction P xs rule: replace_runs.induct)
  case (1 P)
  then show ?case by simp
next
  case (2 P c cs)
  show ?case
  proof (cases "P c")
    case True
    with 2 have "set (replace_runs P (dropWhile P cs)) \<subseteq> insert 95 {c \<in> set (dropWhile P cs). \<not> P c}"
      by simp
    also have "\<dots> \<subseteq> insert 95 {c \<in> set cs. \<not> P c}"
      using set_dropWhileD by fastforce
    finally show ?thesis using True by auto
  next
    case False
    with 2 show ?thesis by auto
  qed
qed

lemma strip_ends_set: "set (strip_ends P xs) \<subseteq> set xs"
proof -
  have "set (dropWhile P ys) \<subseteq> set ys" for ys :: "'a list"
    using set_dropWhileD by fastforce
  then have "set (rev (dropWhile P (rev (dropWhile P xs)))) \<subseteq> set (dropWhile P xs)"
    by (metis set_rev)
  also have "\<dots> \<subseteq> set xs" using set_dropWhileD by fastforce
  finally show ?thesis by (simp add: strip_ends_def)
qed

lemma clean_name_plain: "c \<in> set (clean_name s) \<Longrightarrow> plain_char c"
proof -
  assume "c \<in> set (clean_name s)"
  then have "c \<in> set (replace_runs is_underscore (replace_runs is_space (filter keep_char s)))"
    using strip_ends_set unfolding clean_name_def by fastforce
  then have "c = 95 \<or> c \<in> set (replace_runs is_space (filter keep_char s))"
    using replace_runs_set[of is_underscore] by fastforce
  then have "c = 95 \<or> (c \<in> set (filter keep_char s) \<and> \<not> is_space c)"
    using replace_runs_set[of is_space "filter keep_char s"] by fastforce
  then show ?thesis by (auto simp: plain_95 keep_char_cases)
qed

lemma strip_ends_length: "length (strip_ends P xs) \<le> length xs"
proof -
  have "length (dropWhile P (rev (dropWhile P xs))) \<le> length (rev (dropWhile P xs))"
    by (rule length_dropWhile_le)
  also have "\<dots> \<le> length xs" by (simp add: length_dropWhile_le)
  finally show ?thesis by (simp add: strip_ends_def)
qed

lemma download_plain: "c \<in> set (js ''download'') \<Longrightarrow> plain_char c"
  by (auto simp: js_def plain_char_def is_word_def)

lemma safeFilename_output:
  "length (safeFilename s) \<le> 100 \<and> safeFilename s \<noteq> []
   \<and> (\<forall>c \<in> set (safeFilename s). plain_char c)
   \<and> safeFilename [] = js ''download''"
proof -
  let ?r = "strip_ends is_space (take 100 (clean_name s))"
  have l: "length ?r \<le> 100"
    using strip_ends_length[of is_space "take 100 (clean_name s)"] by simp
  have p: "\<forall>c \<in> set ?r. plain_char c"
  proof
    fix c assume "c \<in> set ?r"
    then have "c \<in> set (take 100 (clean_name s))" using strip_ends_set by fastforce
    then have "c \<in> set (clean_name s)" by (rule in_set_takeD)
    then show "plain_char c" by (rule clean_name_plain)
  qed
  have d: "length (js ''download'') \<le> 100" "js ''download'' \<noteq> []" by (simp_all add: js_def)
  show ?thesis
    using l p d download_plain
    by (auto simp: safeFilename_def Let_def)
qed

lemma single_us_Cons: "single_us (a # xs) \<longleftrightarrow> single_us xs \<and> (xs = [] \<or> a \<noteq> 95 \<or> hd xs \<noteq> 95)"
  by (cases xs) auto

lemma single_us_append:
  "single_us (xs @ ys) \<longleftrightarrow>
     single_us xs \<and> single_us ys \<and> (xs = [] \<or> ys = [] \<or> last xs \<noteq> 95 \<or> hd ys \<noteq> 95)"
proof (induction xs)
  case Nil
  then show ?case by simp
next
  case (Cons a xs)
  show ?case
  proof (cases xs)
    case Nil
    then show ?thesis by (cases ys) (auto simp: single_us_Cons)
  next
    case (Cons b zs)
    with Cons.IH show ?thesis by (auto simp: single_us_Cons)
  qed
qed

lemma single_us_rev: "single_us (rev xs) = single_us xs"
proof (induction xs)
  case Nil
  then show ?case by simp
next
  case (Cons a xs)
  then show ?case
    by (cases xs) (auto simp: single_us_append single_us_Cons last_rev)
qed

lemma single_us_dropWhile: "single_us xs \<Longrightarrow> single_us (dropWhile P xs)"
  by (induction xs) (auto simp: single_us_Cons)

lemma single_us_take: "single_us xs \<Longrightarrow> single_us (take n xs)"
  using single_us_append[of "take n xs" "drop n xs"] by simp

lemma single_us_strip_ends: "single_us xs \<Longrightarrow> single_us (strip_ends P xs)"
  by (simp add: strip_ends_def single_us_rev single_us_dropWhile)

lemma replace_runs_first:
  "replace_runs P xs = [] \<or> (P (hd xs) \<and> hd (replace_runs P xs) = 95)
     \<or> (\<not> P (hd xs) \<and> hd (replace_runs P xs) = hd xs)"
  by (cases xs) auto

lemma single_us_replace_runs: "single_us (replace_runs is_underscore xs)"
proof (induction is_underscore xs rule: replace_runs.induct)
  case 1
  then show ?case by simp
next
  case (2 c cs)
  show ?case
  proof (cases "is_underscore c")
    case True
    let ?d = "dropWhile is_underscore cs"
    have "replace_runs is_underscore ?d = [] \<or> hd (replace_runs is_underscore ?d) \<noteq> 95"
    proof (cases ?d)
      case Nil
      show ?thesis unfolding Nil by simp
    next
      case (Cons e es)
      then have ne: "\<not> is_underscore e" using hd_dropWhile[of is_underscore cs] by auto
      then have "hd (replace_runs is_underscore (e # es)) = e" by simp
      moreover from ne have "e \<noteq> 95" by (simp add: is_underscore_def)
      ultimately show ?thesis using Cons by (simp only:) simp
    qed
    moreover have "replace_runs is_underscore (c # cs) = 95 # replace_runs is_underscore ?d"
      using True by simp
    moreover have "single_us (replace_runs is_underscore ?d)" using 2(1)[OF True] .
    ultimately show ?thesis by (auto simp: single_us_Cons)
  next
    case False
    with 2 show ?thesis by (auto simp: single_us_Cons is_underscore_def)
  qed
qed

lemma dropWhile_none: "xs = [] \<or> \<not> P (hd xs) \<Longrightarrow> dropWhile P xs = xs"
  by (cases xs) auto

lemma strip_ends_id:
  "xs = [] \<or> (\<not> P (hd xs) \<and> \<not> P (last xs)) \<Longrightarrow> strip_ends P xs = xs"
  by (cases "xs = []") (simp_all add: strip_ends_def dropWhile_none hd_rev)

lemma replace_runs_id: "\<forall>c \<in> set xs. \<not> P c \<Longrightarrow> replace_runs P xs = xs"
  by (induction xs) auto

lemma replace_runs_single_us: "single_us xs \<Longrightarrow> replace_runs is_underscore xs = xs"
proof (induction xs)
  case Nil
  then show ?case by simp
next
  case (Cons a xs)
  then have sx: "single_us xs" by (simp add: single_us_Cons)
  show ?case
  proof (cases "is_underscore a")
    case True
    then have a: "a = 95" by (simp add: is_underscore_def)
    with Cons.prems have "xs = [] \<or> \<not> is_underscore (hd xs)"
      by (auto simp: single_us_Cons is_underscore_def)
    then have d: "dropWhile is_underscore xs = xs" by (rule dropWhile_none)
    have "replace_runs is_underscore (a # xs) = 95 # replace_runs is_underscore (dropWhile is_underscore xs)"
      using True by simp
    also have "\<dots> = 95 # xs" unfolding d using Cons.IH[OF sx] by simp
    finally show ?thesis using a by simp
  next
    case False
    with Cons.IH[OF sx] show ?thesis by simp
  qed
qed

lemma last_dropWhile: "dropWhile P xs \<noteq> [] \<Longrightarrow> last (dropWhile P xs) = last xs"
  by (metis last_appendR takeWhile_dropWhile_id)

lemma strip_ends_ends:
  "strip_ends P xs = [] \<or> (\<not> P (hd (strip_ends P xs)) \<and> \<not> P (last (strip_ends P xs)))"
proof (cases "strip_ends P xs = []")
  case True
  then show ?thesis by simp
next
  case False
  let ?y = "dropWhile P xs"
  let ?z = "dropWhile P (rev ?y)"
  from False have z: "?z \<noteq> []" by (simp add: strip_ends_def)
  have y: "?y \<noteq> []"
  proof
    assume "?y = []"
    then have "?z = []" by (simp only: rev.simps dropWhile.simps)
    with z show False by blast
  qed
  have "\<not> P (hd ?z)" using z by (rule hd_dropWhile)
  then have l: "\<not> P (last (strip_ends P xs))" using z by (simp add: strip_ends_def last_rev)
  have "last ?z = last (rev ?y)" using z by (rule last_dropWhile)
  also have "\<dots> = hd ?y" using y by (simp add: last_rev)
  finally have "hd (strip_ends P xs) = hd ?y" using z by (simp add: strip_ends_def hd_rev)
  moreover have "\<not> P (hd ?y)" using y by (rule hd_dropWhile)
  ultimately show ?thesis using l by simp
qed

lemma tidy_clean_name: "tidy (clean_name s)"
proof -
  have "single_us (clean_name s)"
    unfolding clean_name_def by (intro single_us_strip_ends single_us_replace_runs)
  moreover have "clean_name s = [] \<or> (hd (clean_name s) \<noteq> 95 \<and> last (clean_name s) \<noteq> 95)"
    using strip_ends_ends[of is_underscore] unfolding clean_name_def is_underscore_def by blast
  ultimately show ?thesis using clean_name_plain by (auto simp: tidy_def)
qed

lemma clean_name_tidy: "tidy t \<Longrightarrow> clean_name t = t"
proof -
  assume t: "tidy t"
  then have "filter keep_char t = t" by (auto simp: tidy_def keep_char_cases filter_id_conv)
  moreover have "replace_runs is_space t = t"
    using t by (intro replace_runs_id) (auto simp: tidy_def plain_not_space)
  moreover have "replace_runs is_underscore t = t"
    using t by (intro replace_runs_single_us) (simp add: tidy_def)
  moreover have "strip_ends is_underscore t = t"
    using t by (intro strip_ends_id) (auto simp: tidy_def is_underscore_def)
  ultimately show ?thesis by (simp add: clean_name_def)
qed

lemma trim_plain: "\<forall>c \<in> set t. plain_char c \<Longrightarrow> strip_ends is_space t = t"
proof (cases "t = []")
  case True
  then show ?thesis by (simp add: strip_ends_def)
next
  case False
  assume "\<forall>c \<in> set t. plain_char c"
  with False have "\<not> is_space (hd t)" "\<not> is_space (last t)"
    by (auto simp: plain_not_space)
  then show ?thesis by (intro strip_ends_id) simp
qed

lemma safeFilename_tidy:
  assumes "tidy t" "t \<noteq> []" "length t \<le> 100"
  shows "safeFilename t = t"
  using assms by (simp add: safeFilename_def clean_name_tidy trim_plain tidy_def)

lemma tidy_download: "tidy (js ''download'')"
  by (simp add: tidy_def js_def plain_char_def is_word_def)

lemma safeFilename_download: "safeFilename (js ''download'') = js ''download''"
  by (rule safeFilename_tidy[OF tidy_download]) (simp_all add: js_def)

lemma safeFilename_cases:
  "safeFilename s = js ''download'' \<or> (safeFilename s = take 100 (clean_name s) \<and> clean_name s \<noteq> [])"
proof -
  have "strip_ends is_space (take 100 (clean_name s)) = take 100 (clean_name s)"
    by (rule trim_plain) (auto dest: in_set_takeD clean_name_plain)
  then show ?thesis by (auto simp: safeFilename_def Let_def)
qed

lemma safeFilename_idempotent_without_trailing_underscore:
  assumes "last (safeFilename s) \<noteq> 95"
  shows "safeFilename (safeFilename s) = safeFilename s"
proof -
  from safeFilename_cases[of s] show ?thesis
  proof
    assume "safeFilename s = js ''download''"
    then show ?thesis by (simp add: safeFilename_download)
  next
    assume a: "safeFilename s = take 100 (clean_name s) \<and> clean_name s \<noteq> []"
    let ?t = "take 100 (clean_name s)"
    from a have ne: "?t \<noteq> []" by simp
    have "tidy (clean_name s)" by (rule tidy_clean_name)
    with a assms ne have "tidy ?t"
      by (auto simp: tidy_def single_us_take dest: in_set_takeD)
    with ne have "safeFilename ?t = ?t" by (intro safeFilename_tidy) simp_all
    with a show ?thesis by simp
  qed
qed

lemma replace_runs_append:
  "\<not> P c \<Longrightarrow> replace_runs P (xs @ c # ys) = replace_runs P xs @ c # replace_runs P ys"
proof (induction P xs rule: replace_runs.induct)
  case (1 P)
  then show ?case by simp
next
  case (2 P a as)
  show ?case
  proof (cases "P a")
    case True
    have d: "dropWhile P (as @ c # ys) = dropWhile P as @ c # ys"
      using "2.prems" by (rule dropWhile_append3)
    from True have "replace_runs P ((a # as) @ c # ys) = 95 # replace_runs P (dropWhile P (as @ c # ys))"
      by simp
    also have "\<dots> = 95 # replace_runs P (dropWhile P as) @ c # replace_runs P ys"
      unfolding d using "2.IH"(1)[OF True "2.prems"] by simp
    finally show ?thesis using True by simp
  next
    case False
    with 2 show ?thesis by simp
  qed
qed

lemma alnum_props:
  "alnum c \<Longrightarrow> keep_char c" "alnum c \<Longrightarrow> \<not> is_space c" "alnum c \<Longrightarrow> \<not> is_underscore c"
  by (auto simp: alnum_def keep_char_def is_word_def is_space_def is_underscore_def)

lemma dot_props: "keep_char 46" "\<not> is_space 46" "\<not> is_underscore 46"
  by (simp_all add: keep_char_def is_space_def is_underscore_def)

lemma clean_name_extension:
  assumes "e \<noteq> []" "\<forall>c \<in> set e. alnum c"
  shows "\<exists>q. clean_name (p @ 46 # e) = q @ 46 # e"
proof -
  have f: "filter keep_char (p @ 46 # e) = filter keep_char p @ 46 # e"
    using assms(2) by (simp add: dot_props alnum_props filter_id_conv)
  have e1: "replace_runs is_space e = e" "replace_runs is_underscore e = e"
    using assms(2) by (auto intro!: replace_runs_id simp: alnum_props)
  let ?x = "replace_runs is_underscore (replace_runs is_space (filter keep_char p))"
  have r: "replace_runs is_underscore (replace_runs is_space (filter keep_char (p @ 46 # e)))
           = ?x @ 46 # e"
    unfolding f by (simp add: replace_runs_append dot_props e1)
  let ?q = "dropWhile is_underscore ?x"
  have d: "dropWhile is_underscore (?x @ 46 # e) = ?q @ 46 # e"
    by (rule dropWhile_append3) (rule dot_props)
  have "\<not> is_underscore (last e)" using assms by (simp add: alnum_props)
  then have "\<not> is_underscore (hd (rev e @ 46 # rev ?q))" using assms(1) by (simp add: hd_rev)
  then have "dropWhile is_underscore (rev e @ 46 # rev ?q) = rev e @ 46 # rev ?q"
    by (intro dropWhile_none) simp
  then have "strip_ends is_underscore (?x @ 46 # e) = ?q @ 46 # e"
    by (simp add: strip_ends_def d)
  then show ?thesis unfolding clean_name_def r by blast
qed

lemma safeFilename_short_names:
  assumes "length (clean_name s) \<le> 100"
  shows "safeFilename (safeFilename s) = safeFilename s
       \<and> (\<forall>p e. s = p @ 46 # e \<and> e \<noteq> [] \<and> (\<forall>c \<in> set e. alnum c)
             \<longrightarrow> (\<exists>q. safeFilename s = q @ 46 # e))"
proof
  have t: "tidy (clean_name s)" by (rule tidy_clean_name)
  from safeFilename_cases[of s] have "last (safeFilename s) \<noteq> 95"
  proof
    assume "safeFilename s = js ''download''"
    then show ?thesis by (simp add: js_def)
  next
    assume "safeFilename s = take 100 (clean_name s) \<and> clean_name s \<noteq> []"
    with assms t show ?thesis by (simp add: tidy_def)
  qed
  then show "safeFilename (safeFilename s) = safeFilename s"
    by (rule safeFilename_idempotent_without_trailing_underscore)
next
  show "\<forall>p e. s = p @ 46 # e \<and> e \<noteq> [] \<and> (\<forall>c \<in> set e. alnum c)
             \<longrightarrow> (\<exists>q. safeFilename s = q @ 46 # e)"
  proof (intro allI impI)
    fix p e assume a: "s = p @ 46 # e \<and> e \<noteq> [] \<and> (\<forall>c \<in> set e. alnum c)"
    then obtain q where q: "clean_name s = q @ 46 # e"
      using clean_name_extension[of e p] by blast
    have "strip_ends is_space (clean_name s) = clean_name s"
      by (rule trim_plain) (auto dest: clean_name_plain)
    with assms q a have "safeFilename s = q @ 46 # e"
      by (simp add: safeFilename_def)
    then show "\<exists>q. safeFilename s = q @ 46 # e" by blast
  qed
qed

lemma replace_runs_length: "length (replace_runs P xs) \<le> length xs"
proof (induction P xs rule: replace_runs.induct)
  case (1 P)
  then show ?case by simp
next
  case (2 P c cs)
  show ?case
  proof (cases "P c")
    case True
    with 2 have "length (replace_runs P (dropWhile P cs)) \<le> length (dropWhile P cs)" by simp
    also have "\<dots> \<le> length cs" by (rule length_dropWhile_le)
    finally show ?thesis using True by simp
  next
    case False
    with 2 show ?thesis by simp
  qed
qed

lemma clean_name_length: "length (clean_name s) \<le> length s"
proof -
  have "length (clean_name s)
        \<le> length (replace_runs is_underscore (replace_runs is_space (filter keep_char s)))"
    unfolding clean_name_def by (rule strip_ends_length)
  also have "\<dots> \<le> length (replace_runs is_space (filter keep_char s))"
    by (rule replace_runs_length)
  also have "\<dots> \<le> length (filter keep_char s)" by (rule replace_runs_length)
  also have "\<dots> \<le> length s" by (rule length_filter_le)
  finally show ?thesis .
qed

text \<open>
  What holds of the claim. When the name after the four replacements has at most 100
  characters (in particular when the input has), \<open>safeFilename\<close> applied twice equals
  \<open>safeFilename\<close> applied once, and a dot followed by a non-empty alphanumeric extension at
  the end of the input is at the end of the output. For any input, the second application
  changes nothing unless the first result ends in an underscore; the result is never empty,
  has at most 100 characters, all of them in \<open>[A-Za-z0-9_.-]\<close>; and the empty input
  gives \<open>download\<close>.
\<close>

lemma safeFilename_within_cap:
  "(length (clean_name s) \<le> 100 \<longrightarrow>
      safeFilename (safeFilename s) = safeFilename s
      \<and> (\<forall>p e. s = p @ 46 # e \<and> e \<noteq> [] \<and> (\<forall>c \<in> set e. alnum c)
             \<longrightarrow> (\<exists>q. safeFilename s = q @ 46 # e)))
   \<and> (last (safeFilename s) \<noteq> 95 \<longrightarrow> safeFilename (safeFilename s) = safeFilename s)
   \<and> length (clean_name s) \<le> length s
   \<and> length (safeFilename s) \<le> 100 \<and> safeFilename s \<noteq> []
   \<and> (\<forall>c \<in> set (safeFilename s). plain_char c)
   \<and> safeFilename [] = js ''download''"
  using safeFilename_short_names[of s] safeFilename_output[of s] clean_name_length[of s]
    safeFilename_idempotent_without_trailing_underscore[of s]
  by blast

lemma safeFilename_within_cap_example:
  "length (clean_name (js ''My video (1).mp4'')) \<le> 100
   \<and> safeFilename (js ''My video (1).mp4'') = js ''My_video_1.mp4''
   \<and> safeFilename (js ''My_video_1.mp4'') = js ''My_video_1.mp4''"
proof -
  have c: "clean_name (js ''My video (1).mp4'') = js ''My_video_1.mp4''"
    by (simp add: js_def clean_name_def strip_ends_def keep_char_def is_word_def is_space_def
        is_underscore_def)
  have l: "length (clean_name (js ''My video (1).mp4'')) \<le> 100"
    unfolding c by (simp add: js_def)
  have v: "safeFilename (js ''My video (1).mp4'') = js ''My_video_1.mp4''"
    unfolding safeFilename_def c
    by (simp add: js_def strip_ends_def is_space_def)
  from safeFilename_within_cap[of "js ''My video (1).mp4''"] l v show ?thesis by simp
qed

end
